theory Spec2Isabelle
  imports Main "HOL-Library.Word"
begin

unbundle bit_operations_syntax

section \<open>The goldfish tty (hw/char/goldfish\_tty.c): the Stream Bridge Device\<close>

subsection \<open>Device state\<close>

text \<open>
  \<^verbatim>\<open>struct tty_state\<close> with the pieces of the machine its functions touch. The first five
  fields are the struct's own (\<open>data\<close> is \<^verbatim>\<open>uint8_t data[128]\<close>, a list whose length stays
  128). \<open>cs\<close> says whether the character backend pointer is non-NULL. \<open>irq\<close> is the level
  of the interrupt line, as last driven by \<^verbatim>\<open>qemu_set_irq\<close>. \<open>chr_out\<close> collects the bytes
  handed to \<^verbatim>\<open>qemu_chr_fe_write\<close>, \<open>guest_mem\<close> is the guest's memory as
  \<^verbatim>\<open>cpu_memory_rw_debug\<close> sees it, and \<open>goldfish_64bit_guest\<close> is the global flag of
  hw/misc/vmem.c.
\<close>

type_synonym guest_memory = "64 word \<Rightarrow> 8 word"

record tty_state =
  ptr :: "64 word"
  ptr_len :: "32 word"
  ready :: "32 word"
  data :: "8 word list"
  data_count :: "32 word"
  cs :: bool
  irq :: bool
  chr_out :: "8 word list"
  guest_mem :: guest_memory
  goldfish_64bit_guest :: bool

text \<open>
  The width of \<^verbatim>\<open>target_ulong\<close> and the \<^verbatim>\<open>TARGET_MIPS64\<close> switch are fixed when the emulator
  is built.
\<close>

datatype target = Target32 | TargetMips64 | Target64

text \<open>
  \<^verbatim>\<open>cpu_abort\<close> does not return: the emulator stops. \<open>Aborted\<close> keeps the reason and the
  device state as it stands at the call. \<open>BufferOverrun\<close> is not a \<^verbatim>\<open>cpu_abort\<close>: it marks
  a \<^verbatim>\<open>memcpy\<close> that would run past the end of \<open>data\<close>, which in C is undefined.
\<close>

datatype tty_fault = BadOffset | BadCommand | ReadMoreThanAvailable | BufferOverrun

datatype tty_outcome = Done tty_state | Aborted tty_fault tty_state

definition TTY_PUT_CHAR :: "64 word" where "TTY_PUT_CHAR = 0x00"
definition TTY_BYTES_READY :: "64 word" where "TTY_BYTES_READY = 0x04"
definition TTY_CMD :: "64 word" where "TTY_CMD = 0x08"
definition TTY_DATA_PTR :: "64 word" where "TTY_DATA_PTR = 0x10"
definition TTY_DATA_LEN :: "64 word" where "TTY_DATA_LEN = 0x14"
definition TTY_DATA_PTR_HIGH :: "64 word" where "TTY_DATA_PTR_HIGH = 0x18"

definition TTY_CMD_INT_DISABLE :: "64 word" where "TTY_CMD_INT_DISABLE = 0"
definition TTY_CMD_INT_ENABLE :: "64 word" where "TTY_CMD_INT_ENABLE = 1"
definition TTY_CMD_WRITE_BUFFER :: "64 word" where "TTY_CMD_WRITE_BUFFER = 2"
definition TTY_CMD_READ_BUFFER :: "64 word" where "TTY_CMD_READ_BUFFER = 3"

definition GOLDFISH_TTY_SAVE_VERSION :: int where "GOLDFISH_TTY_SAVE_VERSION = 2"

subsection \<open>Guest memory (hw/misc/vmem.c)\<close>

text \<open>
  Modelled from the spec: \<^verbatim>\<open>cpu_memory_rw_debug\<close> is not among the sources. The spec has the
  device copy bytes "out of guest memory" and "into guest memory at guestBufferPointer"; the
  model is a flat byte store in which a transfer of \<open>n\<close> bytes at \<open>a\<close> touches
  \<open>a, a + 1, ..., a + n - 1\<close> and always succeeds.
\<close>

fun mem_write :: "guest_memory \<Rightarrow> 64 word \<Rightarrow> 8 word list \<Rightarrow> guest_memory" where
  "mem_write m a [] = m"
| "mem_write m a (b # bs) = mem_write (m(a := b)) (a + 1) bs"

fun mem_read :: "guest_memory \<Rightarrow> 64 word \<Rightarrow> nat \<Rightarrow> 8 word list" where
  "mem_read m a 0 = []"
| "mem_read m a (Suc n) = m a # mem_read m (a + 1) n"

text \<open>
  The address \<^verbatim>\<open>safe_memory_rw_debug\<close> passes on. Its parameter is a \<^verbatim>\<open>target_ulong\<close>, so a
  32-bit target keeps the low half of the 64-bit \<open>ptr\<close>; a MIPS64 build with a guest that
  never wrote the high pointer register sign-extends the low half.
\<close>

definition safe_addr :: "target \<Rightarrow> bool \<Rightarrow> 64 word \<Rightarrow> 64 word" where
  "safe_addr tg guest64 addr =
     (case tg of
        Target32 \<Rightarrow> ucast (ucast addr :: 32 word)
      | TargetMips64 \<Rightarrow> (if \<not> guest64 then scast (ucast addr :: 32 word) else addr)
      | Target64 \<Rightarrow> addr)"

subsection \<open>Register writes\<close>

text \<open>\<^verbatim>\<open>deposit64(value, start, length, fieldval)\<close> for the two calls the device makes.\<close>

definition deposit64_low :: "64 word \<Rightarrow> 64 word \<Rightarrow> 64 word" where
  "deposit64_low v f = (v AND NOT 0xFFFFFFFF) OR (f AND 0xFFFFFFFF)"

definition deposit64_high :: "64 word \<Rightarrow> 64 word \<Rightarrow> 64 word" where
  "deposit64_high v f = (v AND 0xFFFFFFFF) OR push_bit 32 (f AND 0xFFFFFFFF)"

text \<open>
  The chunk loop of \<^verbatim>\<open>TTY_CMD_WRITE_BUFFER\<close>; \<open>len\<close> is the C \<^verbatim>\<open>int\<close>. A chunk of negative
  length (\<open>ptr_len\<close> above \<open>INT_MAX\<close>) moves no byte, and the loop ends after it.
\<close>

function write_buffer_loop :: "target \<Rightarrow> tty_state \<Rightarrow> 64 word \<Rightarrow> int \<Rightarrow> tty_state" where
  "write_buffer_loop tg s buf len =
     (if len = 0 then s
      else
        let to_write = (if 64 > len then len else 64);
            temp = mem_read (guest_mem s) (safe_addr tg (goldfish_64bit_guest s) buf)
                     (nat to_write);
            s' = s\<lparr>chr_out := chr_out s @ temp\<rparr>
        in write_buffer_loop tg s' (buf + word_of_int to_write) (len - to_write))"
  by pat_completeness auto
termination
  by (relation "measure (\<lambda>(tg, s, buf, len). nat \<bar>len\<bar>)") auto

declare write_buffer_loop.simps [simp del]

text \<open>\<^verbatim>\<open>memmove(s->data, s->data + n, count - n)\<close> on the 128-byte array.\<close>

definition memmove_front :: "8 word list \<Rightarrow> nat \<Rightarrow> nat \<Rightarrow> 8 word list" where
  "memmove_front d n k = take k (drop n d) @ drop k d"

definition tty_cmd :: "target \<Rightarrow> tty_state \<Rightarrow> 64 word \<Rightarrow> tty_outcome" where
  "tty_cmd tg s v =
     (if v = TTY_CMD_INT_DISABLE then
        (if ready s \<noteq> 0 then
           Done ((if data_count s > 0 then s\<lparr>irq := False\<rparr> else s)\<lparr>ready := 0\<rparr>)
         else Done s)
      else if v = TTY_CMD_INT_ENABLE then
        (if ready s = 0 then
           Done ((if data_count s > 0 then s\<lparr>irq := True\<rparr> else s)\<lparr>ready := 1\<rparr>)
         else Done s)
      else if v = TTY_CMD_WRITE_BUFFER then
        (if cs s then
           Done (write_buffer_loop tg s
                   (case tg of Target32 \<Rightarrow> ucast (ucast (ptr s) :: 32 word) | _ \<Rightarrow> ptr s)
                   (sint (ptr_len s)))
         else Done s)
      else if v = TTY_CMD_READ_BUFFER then
        (if ptr_len s > data_count s then Aborted ReadMoreThanAvailable s
         else
           let s1 = s\<lparr>guest_mem :=
                       mem_write (guest_mem s)
                         (safe_addr tg (goldfish_64bit_guest s) (ptr s))
                         (take (unat (ptr_len s)) (data s))\<rparr>;
               s2 = (if data_count s1 > ptr_len s1
                     then s1\<lparr>data := memmove_front (data s1) (unat (ptr_len s1))
                                       (unat (data_count s1 - ptr_len s1))\<rparr>
                     else s1);
               s3 = s2\<lparr>data_count := data_count s2 - ptr_len s2\<rparr>
           in Done (if data_count s3 = 0 \<and> ready s3 \<noteq> 0 then s3\<lparr>irq := False\<rparr> else s3))
      else Aborted BadCommand s)"

definition goldfish_tty_write :: "target \<Rightarrow> tty_state \<Rightarrow> 64 word \<Rightarrow> 64 word \<Rightarrow> tty_outcome" where
  "goldfish_tty_write tg s offset v =
     (if offset = TTY_PUT_CHAR then
        Done (if cs s then s\<lparr>chr_out := chr_out s @ [ucast v]\<rparr> else s)
      else if offset = TTY_CMD then tty_cmd tg s v
      else if offset = TTY_DATA_PTR then Done (s\<lparr>ptr := deposit64_low (ptr s) v\<rparr>)
      else if offset = TTY_DATA_PTR_HIGH then
        Done (s\<lparr>goldfish_64bit_guest := True, ptr := deposit64_high (ptr s) v\<rparr>)
      else if offset = TTY_DATA_LEN then Done (s\<lparr>ptr_len := ucast v\<rparr>)
      else Aborted BadOffset s)"

text \<open>\<^verbatim>\<open>goldfish_tty_read\<close>: the only readable register is the occupancy.\<close>

definition goldfish_tty_read :: "tty_state \<Rightarrow> 64 word \<Rightarrow> tty_fault + 64 word" where
  "goldfish_tty_read s offset =
     (if offset = TTY_BYTES_READY then Inr (ucast (data_count s)) else Inl BadOffset)"

subsection \<open>The host stream side\<close>

definition tty_can_receive :: "tty_state \<Rightarrow> int" where
  "tty_can_receive s = sint (128 - data_count s)"

text \<open>
  \<^verbatim>\<open>tty_receive(opaque, buf, size)\<close>; \<open>buf\<close> is the \<open>size\<close> bytes delivered. The \<^verbatim>\<open>memcpy\<close>
  stays inside \<open>data\<close> exactly when \<open>data_count + size \<le> 128\<close>.
\<close>

definition tty_receive :: "tty_state \<Rightarrow> 8 word list \<Rightarrow> tty_outcome" where
  "tty_receive s buf =
     (if unat (data_count s) + length buf > 128 then Aborted BufferOverrun s
      else
        let s1 = s\<lparr>data := take (unat (data_count s)) (data s) @ buf
                            @ drop (unat (data_count s) + length buf) (data s)\<rparr>;
            s2 = s1\<lparr>data_count := data_count s1 + of_nat (length buf)\<rparr>
        in Done (if data_count s2 > 0 \<and> ready s2 \<noteq> 0 then s2\<lparr>irq := True\<rparr> else s2))"

subsection \<open>Sequences of operations\<close>

datatype tty_op = RegWrite "64 word" "64 word" | Receive "8 word list"

definition tty_step :: "target \<Rightarrow> tty_state \<Rightarrow> tty_op \<Rightarrow> tty_outcome" where
  "tty_step tg s op =
     (case op of RegWrite offset v \<Rightarrow> goldfish_tty_write tg s offset v
               | Receive buf \<Rightarrow> tty_receive s buf)"

fun tty_run :: "target \<Rightarrow> tty_state \<Rightarrow> tty_op list \<Rightarrow> tty_outcome" where
  "tty_run tg s [] = Done s"
| "tty_run tg s (op # ops) =
     (case tty_step tg s op of
        Done s' \<Rightarrow> tty_run tg s' ops
      | Aborted e s' \<Rightarrow> Aborted e s')"

text \<open>
  The device after \<^verbatim>\<open>goldfish_tty_realize\<close>: the object is zero-filled, the line is low.
\<close>

definition tty_init :: "bool \<Rightarrow> guest_memory \<Rightarrow> tty_state" where
  "tty_init has_cs m =
     \<lparr>ptr = 0, ptr_len = 0, ready = 0, data = replicate 128 0, data_count = 0,
      cs = has_cs, irq = False, chr_out = [], guest_mem = m, goldfish_64bit_guest = False\<rparr>"

subsection \<open>The interrupt line\<close>

text \<open>
  The line is high exactly when interrupts are enabled (\<open>ready\<close> non-zero) and the receive
  buffer holds at least one byte.
\<close>

definition irq_inv :: "tty_state \<Rightarrow> bool" where
  "irq_inv s = (irq s = (ready s \<noteq> 0 \<and> data_count s > 0))"

fun outcome_state :: "tty_outcome \<Rightarrow> tty_state" where
  "outcome_state (Done s) = s"
| "outcome_state (Aborted e s) = s"

subsection \<open>Well-formed device states\<close>

text \<open>
  The array has 128 bytes and the occupancy never exceeds it; every operation keeps this.
\<close>

definition tty_wf :: "tty_state \<Rightarrow> bool" where
  "tty_wf s = (length (data s) = 128 \<and> data_count s \<le> 128)"

text \<open>A device holding the two bytes 7 and 9, asked for three.\<close>

definition tty_two_bytes :: tty_state where
  "tty_two_bytes =
     \<lparr>ptr = 0x1000, ptr_len = 3, ready = 1, data = [7, 9] @ replicate 126 0, data_count = 2,
      cs = True, irq = True, chr_out = [], guest_mem = (\<lambda>_. 0),
      goldfish_64bit_guest = False\<rparr>"

subsection \<open>Saving and loading the device\<close>

text \<open>
  Modelled from the spec: the stream primitives \<^verbatim>\<open>qemu_put_*\<close> and \<^verbatim>\<open>qemu_get_*\<close> of
  migration/qemu-file.h are not among the sources. The spec describes the persisted state
  as a record of fields in a fixed order; here the record is the sequence of its bytes,
  multi-byte fields most significant byte first (as the primitives' names say), a put
  appends, a get consumes from the front and yields zero bytes once the record is
  exhausted, and \<^verbatim>\<open>qemu_get_buffer\<close> yields the bytes it could read.
\<close>

type_synonym qemu_file = "8 word list"

definition qemu_put_byte :: "qemu_file \<Rightarrow> 8 word \<Rightarrow> qemu_file" where
  "qemu_put_byte f v = f @ [v]"

definition qemu_put_be32 :: "qemu_file \<Rightarrow> 32 word \<Rightarrow> qemu_file" where
  "qemu_put_be32 f v =
     qemu_put_byte (qemu_put_byte (qemu_put_byte (qemu_put_byte f
       (ucast (drop_bit 24 v))) (ucast (drop_bit 16 v))) (ucast (drop_bit 8 v))) (ucast v)"

definition qemu_put_be64 :: "qemu_file \<Rightarrow> 64 word \<Rightarrow> qemu_file" where
  "qemu_put_be64 f v = qemu_put_be32 (qemu_put_be32 f (ucast (drop_bit 32 v))) (ucast v)"

definition qemu_put_buffer :: "qemu_file \<Rightarrow> 8 word list \<Rightarrow> qemu_file" where
  "qemu_put_buffer f bs = f @ bs"

definition qemu_get_byte :: "qemu_file \<Rightarrow> 8 word \<times> qemu_file" where
  "qemu_get_byte f = (case f of [] \<Rightarrow> (0, []) | b # r \<Rightarrow> (b, r))"

definition qemu_get_be32 :: "qemu_file \<Rightarrow> 32 word \<times> qemu_file" where
  "qemu_get_be32 f =
     (let (b3, f1) = qemu_get_byte f;
          (b2, f2) = qemu_get_byte f1;
          (b1, f3) = qemu_get_byte f2;
          (b0, f4) = qemu_get_byte f3
      in (push_bit 24 (ucast b3) OR push_bit 16 (ucast b2) OR push_bit 8 (ucast b1) OR ucast b0,
          f4))"

definition qemu_get_be64 :: "qemu_file \<Rightarrow> 64 word \<times> qemu_file" where
  "qemu_get_be64 f =
     (let (hi, f1) = qemu_get_be32 f;
          (lo, f2) = qemu_get_be32 f1
      in (push_bit 32 (ucast hi) OR ucast lo, f2))"

definition qemu_get_buffer :: "qemu_file \<Rightarrow> nat \<Rightarrow> 8 word list \<times> qemu_file" where
  "qemu_get_buffer f n = (take n f, drop n f)"

text \<open>
  \<^verbatim>\<open>goldfish_tty_save\<close>. \<^verbatim>\<open>qemu_put_byte\<close> takes an \<^verbatim>\<open>int\<close> and writes its low byte, so
  \<open>ready\<close> and \<open>data_count\<close> are truncated to eight bits.
\<close>

definition goldfish_tty_save :: "qemu_file \<Rightarrow> tty_state \<Rightarrow> qemu_file" where
  "goldfish_tty_save f s =
     qemu_put_buffer
       (qemu_put_byte
          (qemu_put_byte
             (qemu_put_be32 (qemu_put_be64 f (ptr s)) (ptr_len s))
             (ucast (ready s)))
          (ucast (data_count s)))
       (take (unat (data_count s)) (data s))"

text \<open>
  \<^verbatim>\<open>goldfish_tty_load\<close>, returning the C return value and the device. A record whose count
  byte makes \<^verbatim>\<open>qemu_get_buffer\<close> write more than 128 bytes into \<open>data\<close> overruns the array.
\<close>

definition goldfish_tty_load ::
    "qemu_file \<Rightarrow> tty_state \<Rightarrow> int \<Rightarrow> tty_fault + (int \<times> tty_state)" where
  "goldfish_tty_load f s version_id =
     (if version_id \<noteq> GOLDFISH_TTY_SAVE_VERSION \<and> version_id \<noteq> GOLDFISH_TTY_SAVE_VERSION - 1
      then Inr (-1, s)
      else
        let (p, f1) = (if version_id = GOLDFISH_TTY_SAVE_VERSION - 1
                       then (let (p32, g) = qemu_get_be32 f in (ucast p32, g))
                       else qemu_get_be64 f);
            (len, f2) = qemu_get_be32 f1;
            (r, f3) = qemu_get_byte f2;
            (c, f4) = qemu_get_byte f3;
            s1 = s\<lparr>ptr := p, ptr_len := len, ready := ucast r, data_count := ucast c\<rparr>;
            (got, f5) = qemu_get_buffer f4 (unat (data_count s1))
        in if length got > 128 then Inl BufferOverrun
           else
             let s2 = s1\<lparr>data := got @ drop (length got) (data s1)\<rparr>
             in if int (length got) < 0 then Inr (-1, s2)
                else Inr (0, s2\<lparr>irq := (ready s2 \<noteq> 0 \<and> data_count s2 > 0)\<rparr>))"

text \<open>
  A record in the layout of the prior version: as the current one, but with a 32-bit
  pointer field.
\<close>

definition legacy_record ::
    "32 word \<Rightarrow> 32 word \<Rightarrow> 8 word \<Rightarrow> 8 word \<Rightarrow> 8 word list \<Rightarrow> qemu_file" where
  "legacy_record p32 len r c bytes =
     qemu_put_buffer
       (qemu_put_byte (qemu_put_byte (qemu_put_be32 (qemu_put_be32 [] p32) len) r) c) bytes"

text \<open>
  What \<^verbatim>\<open>goldfish_tty_save\<close> can write without loss: a well-formed device whose \<open>ready\<close>
  fits the byte it is saved in. The register commands only ever store 0 or 1 there, and a
  load stores a byte.
\<close>

definition tty_persistable :: "tty_state \<Rightarrow> bool" where
  "tty_persistable s = (tty_wf s \<and> ready s < 256)"

section \<open>The network pipes (hw/misc/android\_net\_pipe.c): the Socket Tunnel Endpoint\<close>

subsection \<open>Connection state\<close>

datatype pipe_state =
  STATE_INIT | STATE_CONNECTING | STATE_CONNECTED | STATE_CLOSING_GUEST | STATE_CLOSING_SOCKET

text \<open>
  What the connection tells the guest side: \<^verbatim>\<open>android_pipe_wake(hwpipe, flags)\<close> and
  \<^verbatim>\<open>android_pipe_close(hwpipe)\<close>, each recorded with its arguments (\<open>None\<close> is a NULL
  \<open>hwpipe\<close>).
\<close>

datatype guest_event = Wake "nat option" "32 word" | Close nat

text \<open>
  \<^verbatim>\<open>NetPipe\<close> (the first five fields) with what its functions touch outside the struct:
  which of the two callbacks \<^verbatim>\<open>qemu_set_fd_handler\<close> last registered for the descriptor,
  the calls made to the guest side, and whether \<^verbatim>\<open>net_pipe_free\<close> has released the struct.
\<close>

record NetPipe =
  hwpipe :: "nat option"
  state :: pipe_state
  wakeWanted :: "32 word"
  wakeActual :: "32 word"
  fd :: int
  read_handler :: bool
  write_handler :: bool
  guest_log :: "guest_event list"
  freed :: bool

text \<open>
  Modelled from the spec: hw/misc/android\_pipe.h, which defines the wake flags and the
  error codes, is not among the sources. The spec has \<open>wakeWanted\<close> and \<open>wakeActual\<close> as
  bitmasks over the directions Read and Write, and the results TryAgain, InvalidHandle and
  IOFailure as negative returns distinct from every byte count. The numbers are those of the
  goldfish pipe protocol.
\<close>

definition PIPE_WAKE_READ :: "32 word" where "PIPE_WAKE_READ = 2"
definition PIPE_WAKE_WRITE :: "32 word" where "PIPE_WAKE_WRITE = 4"

definition PIPE_ERROR_INVAL :: int where "PIPE_ERROR_INVAL = -1"
definition PIPE_ERROR_AGAIN :: int where "PIPE_ERROR_AGAIN = -2"
definition PIPE_ERROR_IO :: int where "PIPE_ERROR_IO = -4"

subsection \<open>Reactor callbacks and wake arming\<close>

definition net_pipe_free :: "NetPipe \<Rightarrow> NetPipe" where
  "net_pipe_free p =
     (if fd p \<ge> 0 then p\<lparr>read_handler := False, write_handler := False, fd := -1\<rparr> else p)
       \<lparr>freed := True\<rparr>"

definition net_pipe_reset_state :: "NetPipe \<Rightarrow> NetPipe" where
  "net_pipe_reset_state p =
     p\<lparr>read_handler := (state p = STATE_CONNECTED \<and> wakeWanted p AND PIPE_WAKE_READ \<noteq> 0),
       write_handler := (wakeWanted p AND PIPE_WAKE_WRITE \<noteq> 0)\<rparr>"

definition net_pipe_close_from_socket :: "NetPipe \<Rightarrow> NetPipe" where
  "net_pipe_close_from_socket p =
     (if state p = STATE_CLOSING_GUEST then net_pipe_free p
      else
        let p1 = (case hwpipe p of
                    Some h \<Rightarrow> p\<lparr>guest_log := guest_log p @ [Close h], hwpipe := None\<rparr>
                  | None \<Rightarrow> p)
        in net_pipe_reset_state (p1\<lparr>state := STATE_CLOSING_SOCKET\<rparr>))"

definition net_pipe_read_handler :: "NetPipe \<Rightarrow> NetPipe" where
  "net_pipe_read_handler p =
     (let p1 = p\<lparr>wakeActual := wakeActual p OR PIPE_WAKE_READ\<rparr>;
          p2 = (if wakeWanted p1 AND PIPE_WAKE_READ \<noteq> 0
                then p1\<lparr>guest_log := guest_log p1 @ [Wake (hwpipe p1) (wakeActual p1)],
                        wakeWanted := wakeWanted p1 AND NOT PIPE_WAKE_READ\<rparr>
                else p1)
      in net_pipe_reset_state p2)"

definition net_pipe_write_handler :: "NetPipe \<Rightarrow> NetPipe" where
  "net_pipe_write_handler p =
     (let p1 = p\<lparr>wakeActual := wakeActual p OR PIPE_WAKE_WRITE\<rparr>;
          p2 = (if wakeWanted p1 AND PIPE_WAKE_WRITE \<noteq> 0
                then p1\<lparr>guest_log := guest_log p1 @ [Wake (hwpipe p1) (wakeActual p1)],
                        wakeWanted := wakeWanted p1 AND NOT PIPE_WAKE_WRITE\<rparr>
                else p1)
      in net_pipe_reset_state p2)"

definition net_pipe_close_from_guest :: "NetPipe \<Rightarrow> NetPipe" where
  "net_pipe_close_from_guest p = net_pipe_free p"

definition net_pipe_poll :: "NetPipe \<Rightarrow> 32 word" where
  "net_pipe_poll p = wakeActual p"

definition net_pipe_wake_on :: "NetPipe \<Rightarrow> 32 word \<Rightarrow> NetPipe" where
  "net_pipe_wake_on p flags =
     net_pipe_reset_state
       (p\<lparr>wakeWanted := wakeWanted p OR flags, wakeActual := wakeActual p AND NOT flags\<rparr>)"

text \<open>\<^verbatim>\<open>net_pipe_connect_handler(fd, opaque)\<close>; a negative \<open>fd\<close> reports that the connect failed.\<close>

definition net_pipe_connect_handler :: "NetPipe \<Rightarrow> int \<Rightarrow> NetPipe" where
  "net_pipe_connect_handler p fd_arg =
     (if fd_arg < 0 then net_pipe_close_from_socket p
      else net_pipe_reset_state (p\<lparr>state := STATE_CONNECTED\<rparr>))"

subsection \<open>Moving bytes\<close>

text \<open>
  The socket is what the loops call: the \<open>k\<close>-th \<^verbatim>\<open>send\<close> or \<^verbatim>\<open>recv\<close> of a call, asked for
  \<open>avail\<close> bytes, answers with the \<^verbatim>\<open>ssize_t\<close> result and, when that is negative, \<open>errno\<close>.
\<close>

datatype sock_errno = EAGAIN | EWOULDBLOCK | EOTHER

type_synonym socket = "nat \<Rightarrow> int \<Rightarrow> int \<times> sock_errno"

text \<open>One entry per system call made: the length asked for and the result.\<close>

type_synonym io_trace = "(int \<times> int) list"

datatype xfer_fault = BufferIndexOutOfRange

definition net_pipe_ready_send :: "NetPipe \<Rightarrow> int" where
  "net_pipe_ready_send p =
     (if state p = STATE_CONNECTED then 0
      else if state p = STATE_CONNECTING then PIPE_ERROR_AGAIN
      else if hwpipe p = None then PIPE_ERROR_INVAL
      else PIPE_ERROR_IO)"

text \<open>
  The \<^verbatim>\<open>while (count > 0)\<close> loop, which \<^verbatim>\<open>net_pipe_send_buffers\<close> and
  \<^verbatim>\<open>net_pipe_recv_buffers\<close> contain statement for statement alike, one calling \<^verbatim>\<open>send\<close> and
  the other \<^verbatim>\<open>recv\<close>. A buffer segment is given by its \<open>size\<close>; \<open>bi\<close> is the position of
  \<open>buff\<close> in the array, and reading a segment past the end of the array is a fault. The C
  \<^verbatim>\<open>int\<close>s are integers here: as long as the sizes add up to at most \<open>INT_MAX\<close> and the
  socket returns no more than it was asked for, no value leaves the range of \<^verbatim>\<open>int\<close>.
\<close>

function buffers_loop ::
    "socket \<Rightarrow> nat list \<Rightarrow> nat \<Rightarrow> int \<Rightarrow> int \<Rightarrow> int \<Rightarrow> io_trace
       \<Rightarrow> xfer_fault + (int \<times> io_trace)" where
  "buffers_loop sock sizes bi buff_start count ret tr =
     (if count > 0 then
        (if bi < length sizes then
           let avail = int (sizes ! bi) - buff_start;
               (len, err) = sock (length tr) avail;
               tr' = tr @ [(avail, len)]
           in if len > 0 then
                (if buff_start + len \<ge> int (sizes ! bi)
                 then buffers_loop sock sizes (bi + 1) 0 (count - len) (ret + len) tr'
                 else buffers_loop sock sizes bi (buff_start + len) (count - len) (ret + len) tr')
              else if len = 0 then Inr (if ret = 0 then PIPE_ERROR_IO else ret, tr')
              else if ret > 0 then Inr (ret, tr')
              else if err = EAGAIN \<or> err = EWOULDBLOCK then Inr (PIPE_ERROR_AGAIN, tr')
              else Inr (PIPE_ERROR_IO, tr')
         else Inl BufferIndexOutOfRange)
      else Inr (ret, tr))"
  by pat_completeness auto
termination
  by (relation "measure (\<lambda>(sock, sizes, bi, buff_start, count, ret, tr). nat count)")
     (auto split: prod.splits)

declare buffers_loop.simps [simp del]

text \<open>
  Both entry points return the C result, the system calls made, and the connection, which
  neither of them assigns to.
\<close>

definition net_pipe_send_buffers ::
    "NetPipe \<Rightarrow> socket \<Rightarrow> nat list \<Rightarrow> xfer_fault + (int \<times> io_trace \<times> NetPipe)" where
  "net_pipe_send_buffers p sock sizes =
     (let ret = net_pipe_ready_send p
      in if ret \<noteq> 0 then Inr (ret, [], p)
         else
           (case buffers_loop sock sizes 0 0 (int (sum_list sizes)) 0 [] of
              Inl e \<Rightarrow> Inl e
            | Inr (r, tr) \<Rightarrow> Inr (r, tr, p)))"

definition net_pipe_recv_buffers ::
    "NetPipe \<Rightarrow> socket \<Rightarrow> nat list \<Rightarrow> xfer_fault + (int \<times> io_trace \<times> NetPipe)" where
  "net_pipe_recv_buffers p sock sizes =
     (case buffers_loop sock sizes 0 0 (int (sum_list sizes)) 0 [] of
        Inl e \<Rightarrow> Inl e
      | Inr (r, tr) \<Rightarrow> Inr (r, tr, p))"

text \<open>The bytes moved by the calls that succeeded.\<close>

definition moved :: "io_trace \<Rightarrow> int" where
  "moved tr = sum_list (filter (\<lambda>len. len > 0) (map snd tr))"

text \<open>
  What the loops rely on: the segments fit an \<^verbatim>\<open>int\<close>, and the socket never reports more
  bytes than it was asked to move.
\<close>

definition INT_MAX :: int where "INT_MAX = 2147483647"

definition sizes_ok :: "nat list \<Rightarrow> bool" where
  "sizes_ok sizes = (int (sum_list sizes) \<le> INT_MAX)"

definition sock_ok :: "socket \<Rightarrow> bool" where
  "sock_ok sock = (\<forall>k avail. fst (sock k avail) \<le> max avail 0)"

text \<open>
  The loop's invariant: \<open>count\<close> is what remains of the segments from the cursor on, the
  cursor lies inside its segment, \<open>ret\<close> is the sum of the results so far, and every call
  so far succeeded.
\<close>

definition loop_inv :: "nat list \<Rightarrow> nat \<Rightarrow> int \<Rightarrow> int \<Rightarrow> int \<Rightarrow> io_trace \<Rightarrow> bool" where
  "loop_inv sizes bi buff_start count ret tr =
     (count = int (sum_list (drop bi sizes)) - buff_start \<and> 0 \<le> buff_start \<and>
      (if bi < length sizes then buff_start \<le> int (sizes ! bi) else buff_start = 0) \<and>
      ret = moved tr \<and> list_all (\<lambda>c. snd c > 0) tr)"

text \<open>
  What the loop returns, by how it ended: with bytes moved, their sum; with none, 0 if no
  call was made, the I/O error after an end of stream, and "try again" or the I/O error
  after a failed call.
\<close>

definition loop_post :: "int \<Rightarrow> io_trace \<Rightarrow> bool" where
  "loop_post r tr =
     ((moved tr \<noteq> 0 \<longrightarrow> r = moved tr) \<and>
      (moved tr = 0 \<longrightarrow>
         (tr = [] \<and> r = 0) \<or>
         (tr \<noteq> [] \<and> snd (last tr) = 0 \<and> r = PIPE_ERROR_IO) \<or>
         (tr \<noteq> [] \<and> snd (last tr) < 0 \<and> (r = PIPE_ERROR_AGAIN \<or> r = PIPE_ERROR_IO))))"

text \<open>
  The contract of a send or recv call towards the dispatcher, on its result and the system
  calls it made.
\<close>

definition byte_mover_contract :: "int \<Rightarrow> io_trace \<Rightarrow> bool" where
  "byte_mover_contract r tr =
     ((moved tr \<noteq> 0 \<longrightarrow> r = moved tr) \<and>
      (r = PIPE_ERROR_AGAIN \<longrightarrow> moved tr = 0) \<and>
      (moved tr = 0 \<and> tr \<noteq> [] \<and> snd (last tr) = 0 \<longrightarrow> r = PIPE_ERROR_IO))"

subsection \<open>Opening a pipe\<close>

text \<open>
  \<^verbatim>\<open>snprintf(address, sizeof(address), "127.0.0.1:%s", args)\<close> with \<^verbatim>\<open>char address[64]\<close>: at
  most 63 characters are stored before the terminating NUL.
\<close>

definition snprintf_address :: "string \<Rightarrow> string" where
  "snprintf_address args = take 63 (''127.0.0.1:'' @ args)"

datatype connect_call = UnixConnect string | InetConnect string

text \<open>
  \<^verbatim>\<open>net_pipe_init_from(hwpipe, args, is_unix)\<close>. \<open>args\<close> is \<open>None\<close> for a NULL pointer,
  otherwise the characters before the NUL. The two connect functions of qemu/sockets.h are
  parameters: each answers an address with a descriptor, negative on failure. The result is
  the new connection (\<open>None\<close> for NULL) and the connect calls issued. The struct comes
  zero-filled from \<^verbatim>\<open>g_new0\<close>.
\<close>

definition net_pipe_init_from ::
    "(string \<Rightarrow> int) \<Rightarrow> (string \<Rightarrow> int) \<Rightarrow> nat option \<Rightarrow> string option \<Rightarrow> bool
       \<Rightarrow> NetPipe option \<times> connect_call list" where
  "net_pipe_init_from unix_nonblocking_connect inet_nonblocking_connect hw args is_unix =
     (case args of
        None \<Rightarrow> (None, [])
      | Some a \<Rightarrow>
          if a = [] then (None, [])
          else
            let p = \<lparr>hwpipe = hw, state = STATE_CONNECTING, wakeWanted = 0, wakeActual = 0,
                     fd = 0, read_handler = False, write_handler = False, guest_log = [],
                     freed = False\<rparr>;
                (p1, calls) =
                  (if is_unix
                   then (p\<lparr>fd := unix_nonblocking_connect a\<rparr>, [UnixConnect a])
                   else (p\<lparr>fd := inet_nonblocking_connect (snprintf_address a)\<rparr>,
                         [InetConnect (snprintf_address a)]))
            in if fd p1 < 0 then (None, calls) else (Some p1, calls))"

definition net_pipe_init_tcp ::
    "(string \<Rightarrow> int) \<Rightarrow> (string \<Rightarrow> int) \<Rightarrow> nat option \<Rightarrow> string option
       \<Rightarrow> NetPipe option \<times> connect_call list" where
  "net_pipe_init_tcp uc ic hw args = net_pipe_init_from uc ic hw args False"

subsection \<open>The life of a connection\<close>

text \<open>
  Everything that can happen to a connection: the connect completion, the two readiness
  callbacks, and the guest's calls. Once \<^verbatim>\<open>net_pipe_free\<close> has run, the callbacks are
  unregistered and the struct is gone, so nothing more happens to it.
\<close>

datatype net_event =
    ConnectDone int
  | ReadReady
  | WriteReady
  | WakeOn "32 word"
  | CloseFromGuest
  | Send socket "nat list"
  | Recv socket "nat list"

definition net_step :: "NetPipe \<Rightarrow> net_event \<Rightarrow> NetPipe" where
  "net_step p e =
     (if freed p then p
      else case e of
        ConnectDone fd_arg \<Rightarrow> net_pipe_connect_handler p fd_arg
      | ReadReady \<Rightarrow> net_pipe_read_handler p
      | WriteReady \<Rightarrow> net_pipe_write_handler p
      | WakeOn flags \<Rightarrow> net_pipe_wake_on p flags
      | CloseFromGuest \<Rightarrow> net_pipe_close_from_guest p
      | Send sock sizes \<Rightarrow>
          (case net_pipe_send_buffers p sock sizes of Inl _ \<Rightarrow> p | Inr (_, _, p') \<Rightarrow> p')
      | Recv sock sizes \<Rightarrow>
          (case net_pipe_recv_buffers p sock sizes of Inl _ \<Rightarrow> p | Inr (_, _, p') \<Rightarrow> p'))"

fun net_run :: "NetPipe \<Rightarrow> net_event list \<Rightarrow> NetPipe" where
  "net_run p [] = p"
| "net_run p (e # es) = net_run (net_step p e) es"

text \<open>The calls to the guest side made between two states of a connection.\<close>

definition new_events :: "NetPipe \<Rightarrow> NetPipe \<Rightarrow> guest_event list" where
  "new_events p p' = drop (length (guest_log p)) (guest_log p')"

fun is_wake :: "guest_event \<Rightarrow> bool" where
  "is_wake (Wake _ _) = True"
| "is_wake (Close _) = False"

fun is_close :: "guest_event \<Rightarrow> bool" where
  "is_close (Close _) = True"
| "is_close (Wake _ _) = False"

fun is_ready :: "net_event \<Rightarrow> bool" where
  "is_ready ReadReady = True"
| "is_ready WriteReady = True"
| "is_ready _ = False"

text \<open>
  Over a sequence of events: how many wake notifications the read-ready (write-ready)
  callback delivered, and how many \<^verbatim>\<open>net_pipe_wake_on\<close> calls asked for that direction.
\<close>

fun read_wakes :: "NetPipe \<Rightarrow> net_event list \<Rightarrow> nat" where
  "read_wakes p [] = 0"
| "read_wakes p (e # es) =
     (case e of ReadReady \<Rightarrow> length (new_events p (net_step p e)) | _ \<Rightarrow> 0)
       + read_wakes (net_step p e) es"

fun write_wakes :: "NetPipe \<Rightarrow> net_event list \<Rightarrow> nat" where
  "write_wakes p [] = 0"
| "write_wakes p (e # es) =
     (case e of WriteReady \<Rightarrow> length (new_events p (net_step p e)) | _ \<Rightarrow> 0)
       + write_wakes (net_step p e) es"

fun arms :: "32 word \<Rightarrow> net_event list \<Rightarrow> nat" where
  "arms d [] = 0"
| "arms d (e # es) =
     (case e of WakeOn flags \<Rightarrow> (if flags AND d \<noteq> 0 then 1 else 0) | _ \<Rightarrow> 0) + arms d es"

text \<open>Connections and sockets used as examples.\<close>

definition pipe_connecting :: NetPipe where
  "pipe_connecting =
     \<lparr>hwpipe = Some 7, state = STATE_CONNECTING, wakeWanted = 0, wakeActual = 0, fd = 5,
      read_handler = False, write_handler = False, guest_log = [], freed = False\<rparr>"

definition pipe_connected :: NetPipe where
  "pipe_connected = pipe_connecting\<lparr>state := STATE_CONNECTED\<rparr>"

definition sock_full :: socket where
  "sock_full k avail = (avail, EOTHER)"

definition sock_partial :: socket where
  "sock_partial k avail =
     (if k = 0 then (min avail 3, EOTHER)
      else if k = 1 then (min avail 1, EOTHER)
      else (-1, EAGAIN))"

definition sock_refuses :: socket where
  "sock_refuses k avail = (-1, EOTHER)"

text \<open>The force-close a socket-side close sends: one, if the guest side is still there.\<close>

definition close_notice :: "nat option \<Rightarrow> guest_event list" where
  "close_notice hw = (case hw of Some h \<Rightarrow> [Close h] | None \<Rightarrow> [])"

text \<open>Whether a direction is currently wanted, as a number.\<close>

definition wanted_bit :: "NetPipe \<Rightarrow> 32 word \<Rightarrow> nat" where
  "wanted_bit p d = (if wakeWanted p AND d \<noteq> 0 then 1 else 0)"

text \<open>A connected pipe after \<^verbatim>\<open>net_pipe_wake_on\<close> for the read direction.\<close>

definition pipe_armed_read :: NetPipe where
  "pipe_armed_read = net_pipe_wake_on pipe_connected PIPE_WAKE_READ"

(*DEFS-END*)

section \<open>Properties of the Stream Bridge Device\<close>

subsection \<open>The interrupt line follows enable and occupancy\<close>

lemma write_buffer_loop_fields:
  "irq (write_buffer_loop tg s buf len) = irq s \<and>
   ready (write_buffer_loop tg s buf len) = ready s \<and>
   data_count (write_buffer_loop tg s buf len) = data_count s \<and>
   data (write_buffer_loop tg s buf len) = data s \<and>
   ptr (write_buffer_loop tg s buf len) = ptr s \<and>
   ptr_len (write_buffer_loop tg s buf len) = ptr_len s"
proof (induction tg s buf len rule: write_buffer_loop.induct)
  case (1 tg s buf len)
  show ?case
  proof (cases "len = 0")
    case True
    then show ?thesis by (simp add: write_buffer_loop.simps)
  next
    case False
    then show ?thesis
      using "1.IH" [OF False refl refl refl]
      by (subst (1 2 3 4 5 6) write_buffer_loop.simps) (simp add: Let_def)
  qed
qed
lemma word_sub_pos: "(n :: 32 word) \<le> c \<Longrightarrow> c - n \<noteq> 0 \<Longrightarrow> 0 < c"
  by (metis word_gt_0 diff_zero word_le_0_iff right_minus_eq)

lemma int_disable_irq_inv:
  "irq_inv s \<Longrightarrow> irq_inv (outcome_state (tty_cmd tg s TTY_CMD_INT_DISABLE))"
  by (simp add: tty_cmd_def irq_inv_def)

lemma int_enable_irq_inv:
  "irq_inv s \<Longrightarrow> irq_inv (outcome_state (tty_cmd tg s TTY_CMD_INT_ENABLE))"
  by (simp add: tty_cmd_def irq_inv_def TTY_CMD_INT_ENABLE_def TTY_CMD_INT_DISABLE_def)

lemma write_buffer_irq_inv:
  "irq_inv s \<Longrightarrow> irq_inv (outcome_state (tty_cmd tg s TTY_CMD_WRITE_BUFFER))"
  by (simp add: tty_cmd_def irq_inv_def TTY_CMD_INT_ENABLE_def TTY_CMD_INT_DISABLE_def
        TTY_CMD_WRITE_BUFFER_def write_buffer_loop_fields)

lemma read_buffer_eq:
  "tty_cmd tg s TTY_CMD_READ_BUFFER =
     (if ptr_len s > data_count s then Aborted ReadMoreThanAvailable s
      else Done
        ((if data_count s - ptr_len s = 0 \<and> ready s \<noteq> 0 then irq_update (\<lambda>_. False) else id)
          (s\<lparr>guest_mem := mem_write (guest_mem s)
                            (safe_addr tg (goldfish_64bit_guest s) (ptr s))
                            (take (unat (ptr_len s)) (data s)),
             data := (if data_count s > ptr_len s
                      then memmove_front (data s) (unat (ptr_len s))
                             (unat (data_count s - ptr_len s))
                      else data s),
             data_count := data_count s - ptr_len s\<rparr>)))"
  by (simp add: tty_cmd_def TTY_CMD_INT_ENABLE_def TTY_CMD_INT_DISABLE_def
        TTY_CMD_WRITE_BUFFER_def TTY_CMD_READ_BUFFER_def Let_def)

lemma read_buffer_irq_inv:
  "irq_inv s \<Longrightarrow> irq_inv (outcome_state (tty_cmd tg s TTY_CMD_READ_BUFFER))"
  unfolding read_buffer_eq irq_inv_def
  using word_sub_pos [of "ptr_len s" "data_count s"]
  by (auto simp: word_gt_0 not_less)

lemma bad_command_eq:
  "v \<noteq> TTY_CMD_INT_DISABLE \<Longrightarrow> v \<noteq> TTY_CMD_INT_ENABLE \<Longrightarrow> v \<noteq> TTY_CMD_WRITE_BUFFER \<Longrightarrow>
   v \<noteq> TTY_CMD_READ_BUFFER \<Longrightarrow> tty_cmd tg s v = Aborted BadCommand s"
  by (simp add: tty_cmd_def)

lemma tty_cmd_irq_inv: "irq_inv s \<Longrightarrow> irq_inv (outcome_state (tty_cmd tg s v))"
  using int_disable_irq_inv [of s tg] int_enable_irq_inv [of s tg] write_buffer_irq_inv [of s tg]
    read_buffer_irq_inv [of s tg] bad_command_eq [of v tg s]
  by (cases "v = TTY_CMD_INT_DISABLE"; cases "v = TTY_CMD_INT_ENABLE";
      cases "v = TTY_CMD_WRITE_BUFFER"; cases "v = TTY_CMD_READ_BUFFER") simp_all

lemma goldfish_tty_write_irq_inv:
  "irq_inv s \<Longrightarrow> irq_inv (outcome_state (goldfish_tty_write tg s offset v))"
  using tty_cmd_irq_inv [of s tg v]
  by (simp add: goldfish_tty_write_def) (simp add: irq_inv_def)

lemma word_add_zero:
  assumes "\<not> 128 < unat (c :: 32 word) + k" and "c + of_nat k = 0"
  shows "c = 0"
proof -
  have "unat (c + of_nat k) = (unat c + k) mod 2 ^ 32"
    by (simp add: unat_word_ariths unat_of_nat mod_simps)
  also have "\<dots> = unat c + k" using assms(1) by simp
  finally have "unat c + k = 0" using assms(2) by simp
  then show ?thesis by (simp add: unat_eq_0)
qed

lemma tty_receive_irq_inv: "irq_inv s \<Longrightarrow> irq_inv (outcome_state (tty_receive s buf))"
  by (auto simp: tty_receive_def irq_inv_def Let_def word_gt_0 dest: word_add_zero)

lemma tty_step_irq_inv: "irq_inv s \<Longrightarrow> irq_inv (outcome_state (tty_step tg s op))"
  by (cases op) (simp_all add: tty_step_def goldfish_tty_write_irq_inv tty_receive_irq_inv)

lemma tty_run_irq_inv: "irq_inv s \<Longrightarrow> irq_inv (outcome_state (tty_run tg s ops))"
proof (induction ops arbitrary: s)
  case Nil
  then show ?case by simp
next
  case (Cons op ops)
  from Cons.prems have step: "irq_inv (outcome_state (tty_step tg s op))"
    by (rule tty_step_irq_inv)
  show ?case
  proof (cases "tty_step tg s op")
    case (Done s')
    with step Cons.IH [of s'] show ?thesis by simp
  next
    case (Aborted e s')
    with step show ?thesis by simp
  qed
qed

lemma tty_init_irq_inv: "irq_inv (tty_init c m)"
  by (simp add: irq_inv_def tty_init_def)

text \<open>
  Claim C3. Start from the freshly realized device (empty buffer, interrupts disabled, line
  low) and apply any sequence of register writes (interrupt enable, interrupt disable,
  ReadBuffer drain, and every other register write) and host-stream receptions. In the state
  reached, whether the sequence ran to its end or was stopped by an abort, the interrupt
  line is asserted if and only if \<open>ready\<close> is set and the occupancy \<open>data_count\<close> is
  greater than zero. As the sequence is arbitrary, this holds after every operation of it.
\<close>

theorem tty_irq_line_invariant:
  "irq_inv (outcome_state (tty_run tg (tty_init c m) ops))"
  by (rule tty_run_irq_inv [OF tty_init_irq_inv])

subsection \<open>Draining the receive buffer\<close>

lemma mem_write_other:
  "(\<And>j. j < length bs \<Longrightarrow> a + of_nat j \<noteq> x) \<Longrightarrow> mem_write m a bs x = m x"
proof (induction bs arbitrary: m a)
  case Nil
  then show ?case by simp
next
  case (Cons b bs)
  have "a + of_nat 0 \<noteq> x" by (rule Cons.prems) simp
  then have ax: "a \<noteq> x" by simp
  have "mem_write (m(a := b)) (a + 1) bs x = (m(a := b)) x"
  proof (rule Cons.IH)
    fix j assume "j < length bs"
    then have "a + of_nat (Suc j) \<noteq> x" by (intro Cons.prems) simp
    then show "a + 1 + of_nat j \<noteq> x" by (simp add: ac_simps)
  qed
  with ax show ?case by simp
qed

lemma word64_succ_neq:
  assumes "j < n" and "n < 2 ^ 64"
  shows "(a :: 64 word) + 1 + of_nat j \<noteq> a"
proof
  assume "a + 1 + of_nat j = a"
  then have "(of_nat (Suc j) :: 64 word) = 0"
    by (simp add: add.assoc)
  then have "unat (of_nat (Suc j) :: 64 word) = 0" by simp
  moreover have "unat (of_nat (Suc j) :: 64 word) = Suc j"
    using assms by (simp only: unat_of_nat) simp
  ultimately show False by simp
qed

lemma mem_read_mem_write:
  "length bs < 2 ^ 64 \<Longrightarrow> mem_read (mem_write m a bs) a (length bs) = bs"
proof (induction bs arbitrary: m a)
  case Nil
  then show ?case by simp
next
  case (Cons b bs)
  have "mem_write (m(a := b)) (a + 1) bs a = (m(a := b)) a"
    by (rule mem_write_other) (use Cons.prems word64_succ_neq [of _ "length bs" a] in auto)
  moreover have "mem_read (mem_write (m(a := b)) (a + 1) bs) (a + 1) (length bs) = bs"
    using Cons.prems by (intro Cons.IH) simp
  ultimately show ?case by simp
qed

lemma write_cmd_eq: "goldfish_tty_write tg s TTY_CMD v = tty_cmd tg s v"
  by (simp add: goldfish_tty_write_def TTY_CMD_def TTY_PUT_CHAR_def)

lemma write_data_len_eq:
  "goldfish_tty_write tg s TTY_DATA_LEN v = Done (s\<lparr>ptr_len := ucast v\<rparr>)"
  by (simp add: goldfish_tty_write_def TTY_CMD_def TTY_PUT_CHAR_def TTY_DATA_LEN_def
        TTY_DATA_PTR_def TTY_DATA_PTR_HIGH_def)

lemma ucast_32_64_32: "(ucast (ucast (n :: 32 word) :: 64 word) :: 32 word) = n"
  by (rule bit_word_eqI) (simp add: bit_simps)

lemma legal_drain:
  assumes wf: "tty_wf s" and le: "ptr_len s \<le> data_count s"
  obtains s' where
    "tty_cmd tg s TTY_CMD_READ_BUFFER = Done s'"
    "mem_read (guest_mem s') (safe_addr tg (goldfish_64bit_guest s) (ptr s)) (unat (ptr_len s))
       = take (unat (ptr_len s)) (data s)"
    "data_count s' = data_count s - ptr_len s"
    "take (unat (data_count s')) (data s')
       = take (unat (data_count s - ptr_len s)) (drop (unat (ptr_len s)) (data s))"
    "length (data s') = 128"
    "ready s' = ready s"
proof -
  let ?n = "unat (ptr_len s)" and ?c = "unat (data_count s)"
  from wf have len: "length (data s) = 128" and c128: "?c \<le> 128"
    by (simp_all add: tty_wf_def word_le_nat_alt)
  from le have nc: "?n \<le> ?c" by (simp add: word_le_nat_alt)
  have k: "unat (data_count s - ptr_len s) = ?c - ?n"
    using le by (simp add: unat_sub)
  have ltake: "length (take ?n (data s)) = ?n" using len nc c128 by simp
  define s' where "s' =
     (if data_count s - ptr_len s = 0 \<and> ready s \<noteq> 0 then irq_update (\<lambda>_. False) else id)
          (s\<lparr>guest_mem := mem_write (guest_mem s)
                            (safe_addr tg (goldfish_64bit_guest s) (ptr s))
                            (take (unat (ptr_len s)) (data s)),
             data := (if data_count s > ptr_len s
                      then memmove_front (data s) (unat (ptr_len s))
                             (unat (data_count s - ptr_len s))
                      else data s),
             data_count := data_count s - ptr_len s\<rparr>)"
  have 1: "tty_cmd tg s TTY_CMD_READ_BUFFER = Done s'"
    using le unfolding read_buffer_eq s'_def by (simp add: not_less)
  have gm: "guest_mem s' = mem_write (guest_mem s)
                            (safe_addr tg (goldfish_64bit_guest s) (ptr s))
                            (take ?n (data s))"
    by (simp add: s'_def)
  have "mem_read (mem_write (guest_mem s) (safe_addr tg (goldfish_64bit_guest s) (ptr s))
                   (take ?n (data s)))
          (safe_addr tg (goldfish_64bit_guest s) (ptr s)) (length (take ?n (data s)))
        = take ?n (data s)"
    by (rule mem_read_mem_write) (use len in simp)
  then have 2: "mem_read (guest_mem s') (safe_addr tg (goldfish_64bit_guest s) (ptr s)) ?n
       = take ?n (data s)"
    unfolding gm ltake .
  have 3: "data_count s' = data_count s - ptr_len s" by (simp add: s'_def)
  have d: "data s' = (if data_count s > ptr_len s
                      then memmove_front (data s) ?n (?c - ?n) else data s)"
    by (simp add: s'_def k)
  have 4: "take (unat (data_count s')) (data s')
       = take (unat (data_count s - ptr_len s)) (drop ?n (data s))"
  proof (cases "data_count s > ptr_len s")
    case True
    then show ?thesis
      using len nc c128 by (simp add: 3 d k memmove_front_def)
  next
    case False
    with le have "data_count s = ptr_len s" by simp
    then show ?thesis by (simp add: 3)
  qed
  have 5: "length (data s') = 128"
    using len nc c128 by (simp add: d memmove_front_def)
  have 6: "ready s' = ready s" by (simp add: s'_def)
  from 1 2 3 4 5 6 show ?thesis by (rule that)
qed

text \<open>
  Claim C4. On a well-formed device, a ReadBuffer command whose length \<open>ptr_len\<close> exceeds the
  occupancy \<open>data_count\<close> is the fatal "reading more data than available" abort, and the
  device state at the abort is the state before the command: buffer and occupancy are
  untouched. Hence a drain with any legal length \<open>n\<close> issued on that state (length register
  written, then ReadBuffer) succeeds, puts the first \<open>n\<close> buffered bytes into guest memory at
  the buffer pointer, lowers the occupancy by \<open>n\<close> and leaves the remaining bytes at the front
  of the buffer. A ReadBuffer whose length does not exceed the occupancy raises no violation.
\<close>

theorem read_buffer_violation_is_fatal:
  assumes "tty_wf s"
  shows "(data_count s < ptr_len s \<longrightarrow>
            goldfish_tty_write tg s TTY_CMD TTY_CMD_READ_BUFFER = Aborted ReadMoreThanAvailable s \<and>
            (\<forall>n. n \<le> data_count s \<longrightarrow>
               (\<exists>s1 s2.
                  goldfish_tty_write tg
                    (outcome_state (goldfish_tty_write tg s TTY_CMD TTY_CMD_READ_BUFFER))
                    TTY_DATA_LEN (ucast n) = Done s1 \<and>
                  goldfish_tty_write tg s1 TTY_CMD TTY_CMD_READ_BUFFER = Done s2 \<and>
                  mem_read (guest_mem s2) (safe_addr tg (goldfish_64bit_guest s) (ptr s)) (unat n)
                    = take (unat n) (data s) \<and>
                  data_count s2 = data_count s - n \<and>
                  take (unat (data_count s2)) (data s2)
                    = take (unat (data_count s - n)) (drop (unat n) (data s))))) \<and>
         (ptr_len s \<le> data_count s \<longrightarrow>
            (\<exists>s'. goldfish_tty_write tg s TTY_CMD TTY_CMD_READ_BUFFER = Done s'))"
proof (intro conjI impI allI)
  assume viol: "data_count s < ptr_len s"
  then show ab: "goldfish_tty_write tg s TTY_CMD TTY_CMD_READ_BUFFER
                   = Aborted ReadMoreThanAvailable s"
    by (simp add: write_cmd_eq read_buffer_eq)
  fix n assume n: "n \<le> data_count s"
  let ?s1 = "s\<lparr>ptr_len := n\<rparr>"
  have wf1: "tty_wf ?s1" using assms by (simp add: tty_wf_def)
  have le1: "ptr_len ?s1 \<le> data_count ?s1" using n by simp
  from wf1 le1 obtain s2 where
    "tty_cmd tg ?s1 TTY_CMD_READ_BUFFER = Done s2"
    "mem_read (guest_mem s2) (safe_addr tg (goldfish_64bit_guest ?s1) (ptr ?s1)) (unat (ptr_len ?s1))
       = take (unat (ptr_len ?s1)) (data ?s1)"
    "data_count s2 = data_count ?s1 - ptr_len ?s1"
    "take (unat (data_count s2)) (data s2)
       = take (unat (data_count ?s1 - ptr_len ?s1)) (drop (unat (ptr_len ?s1)) (data ?s1))"
    by (rule legal_drain [where tg = tg])
  then show "\<exists>s1 s2.
                  goldfish_tty_write tg
                    (outcome_state (goldfish_tty_write tg s TTY_CMD TTY_CMD_READ_BUFFER))
                    TTY_DATA_LEN (ucast n) = Done s1 \<and>
                  goldfish_tty_write tg s1 TTY_CMD TTY_CMD_READ_BUFFER = Done s2 \<and>
                  mem_read (guest_mem s2) (safe_addr tg (goldfish_64bit_guest s) (ptr s)) (unat n)
                    = take (unat n) (data s) \<and>
                  data_count s2 = data_count s - n \<and>
                  take (unat (data_count s2)) (data s2)
                    = take (unat (data_count s - n)) (drop (unat n) (data s))"
    by (simp add: ab [unfolded write_cmd_eq] write_data_len_eq ucast_32_64_32 write_cmd_eq)
next
  assume "ptr_len s \<le> data_count s"
  with assms obtain s' where "tty_cmd tg s TTY_CMD_READ_BUFFER = Done s'"
    by (rule legal_drain [where tg = tg])
  then show "\<exists>s'. goldfish_tty_write tg s TTY_CMD TTY_CMD_READ_BUFFER = Done s'"
    by (simp add: write_cmd_eq)
qed

theorem read_buffer_violation_is_fatal_witness:
  "tty_wf tty_two_bytes \<and> 
   goldfish_tty_write Target64 tty_two_bytes TTY_CMD TTY_CMD_READ_BUFFER = Aborted ReadMoreThanAvailable tty_two_bytes
   \<and> (\<exists>s1 s2. goldfish_tty_write Target64 tty_two_bytes TTY_DATA_LEN 1 = Done s1 \<and>
         goldfish_tty_write Target64 s1 TTY_CMD TTY_CMD_READ_BUFFER = Done s2 \<and>
         guest_mem s2 0x1000 = 7 \<and> data_count s2 = 1 \<and> take 1 (data s2) = [9])"
proof -
  have wf: "tty_wf tty_two_bytes" by (simp add: tty_wf_def tty_two_bytes_def)
  have v: "data_count tty_two_bytes < ptr_len tty_two_bytes" by (simp add: tty_two_bytes_def)
  have n: "(1 :: 32 word) \<le> data_count tty_two_bytes" by (simp add: tty_two_bytes_def)
  from read_buffer_violation_is_fatal [OF wf, of Target64] v
  have a: "goldfish_tty_write Target64 tty_two_bytes TTY_CMD TTY_CMD_READ_BUFFER = Aborted ReadMoreThanAvailable tty_two_bytes"
    and b: "\<forall>n. n \<le> data_count tty_two_bytes \<longrightarrow>
               (\<exists>s1 s2.
                  goldfish_tty_write Target64
                    (outcome_state (goldfish_tty_write Target64 tty_two_bytes TTY_CMD TTY_CMD_READ_BUFFER))
                    TTY_DATA_LEN (ucast n) = Done s1 \<and>
                  goldfish_tty_write Target64 s1 TTY_CMD TTY_CMD_READ_BUFFER = Done s2 \<and>
                  mem_read (guest_mem s2) (safe_addr Target64 (goldfish_64bit_guest tty_two_bytes) (ptr tty_two_bytes)) (unat n)
                    = take (unat n) (data tty_two_bytes) \<and>
                  data_count s2 = data_count tty_two_bytes - n \<and>
                  take (unat (data_count s2)) (data s2)
                    = take (unat (data_count tty_two_bytes - n)) (drop (unat n) (data tty_two_bytes)))"
    by blast+
  from b n obtain s1 s2 where
     "goldfish_tty_write Target64
                    (outcome_state (goldfish_tty_write Target64 tty_two_bytes TTY_CMD TTY_CMD_READ_BUFFER))
                    TTY_DATA_LEN (ucast (1::32 word)) = Done s1"
      "goldfish_tty_write Target64 s1 TTY_CMD TTY_CMD_READ_BUFFER = Done s2"
      "mem_read (guest_mem s2) (safe_addr Target64 (goldfish_64bit_guest tty_two_bytes) (ptr tty_two_bytes)) (unat (1::32 word))
                    = take (unat (1::32 word)) (data tty_two_bytes)"
      "data_count s2 = data_count tty_two_bytes - 1"
      "take (unat (data_count s2)) (data s2)
                    = take (unat (data_count tty_two_bytes - 1)) (drop (unat (1::32 word)) (data tty_two_bytes))"
    by blast
  then have "goldfish_tty_write Target64 tty_two_bytes TTY_DATA_LEN 1 = Done s1 \<and>
         goldfish_tty_write Target64 s1 TTY_CMD TTY_CMD_READ_BUFFER = Done s2 \<and>
         guest_mem s2 0x1000 = 7 \<and> data_count s2 = 1 \<and> take 1 (data s2) = [9]"
    by (simp add: a) (simp add: safe_addr_def tty_two_bytes_def)
  with wf a show ?thesis by blast
qed

subsection \<open>Saving and loading\<close>

lemma be32_bytes:
  "push_bit 24 (ucast (ucast (drop_bit 24 v) :: 8 word)) OR
   push_bit 16 (ucast (ucast (drop_bit 16 v) :: 8 word)) OR
   push_bit 8 (ucast (ucast (drop_bit 8 v) :: 8 word)) OR
   ucast (ucast v :: 8 word) = (v :: 32 word)"
proof (rule bit_word_eqI)
  fix n :: nat
  assume "n < LENGTH(32)"
  consider "n < 8" | "8 \<le> n" "n < 16" | "16 \<le> n" "n < 24" | "24 \<le> n"
    by linarith
  then show "bit (push_bit 24 (ucast (ucast (drop_bit 24 v) :: 8 word)) OR
       push_bit 16 (ucast (ucast (drop_bit 16 v) :: 8 word)) OR
       push_bit 8 (ucast (ucast (drop_bit 8 v) :: 8 word)) OR
       (ucast (ucast v :: 8 word) :: 32 word)) n = bit v n"
    by cases (auto simp: bit_simps dest: bit_imp_le_length)
qed

lemma be64_halves:
  "push_bit 32 (ucast (ucast (drop_bit 32 v) :: 32 word)) OR ucast (ucast v :: 32 word)
     = (v :: 64 word)"
  by (rule bit_word_eqI) (auto simp: bit_simps)

lemma ucast_byte_id: "(r :: 32 word) < 256 \<Longrightarrow> ucast (ucast r :: 8 word) = r"
proof -
  assume "r < 256"
  then have "r < 2 ^ 8" by simp
  then have "r AND mask 8 = r" by (rule less_mask_eq)
  moreover have "(ucast (ucast r :: 8 word) :: 32 word) = r AND mask 8"
    by (rule bit_word_eqI) (auto simp: bit_simps)
  ultimately show ?thesis by simp
qed

lemma get_put_be32: "qemu_get_be32 (qemu_put_be32 [] v @ rest) = (v, rest)"
  by (simp add: qemu_get_be32_def qemu_put_be32_def qemu_put_byte_def qemu_get_byte_def be32_bytes)

lemma get_put_be64: "qemu_get_be64 (qemu_put_be64 [] v @ rest) = (v, rest)"
proof -
  have "qemu_put_be64 [] v @ rest
          = qemu_put_be32 [] (ucast (drop_bit 32 v)) @ (qemu_put_be32 [] (ucast v) @ rest)"
    by (simp add: qemu_put_be64_def qemu_put_be32_def qemu_put_byte_def)
  then show ?thesis
    by (simp add: qemu_get_be64_def get_put_be32 be64_halves)
qed

lemma unat_ucast_byte: "unat (ucast (c :: 8 word) :: 32 word) = unat c"
proof -
  have "unat c < 2 ^ 8" using unsigned_less [of c, where 'a = nat] by simp
  then have "unat c < 2 ^ 32" by simp
  then have "take_bit 32 (unat c) = unat c" by (rule take_bit_nat_eq_self)
  then show ?thesis by (simp add: unsigned_ucast_eq)
qed

lemma save_eq:
  "goldfish_tty_save [] s =
     qemu_put_be64 [] (ptr s) @ (qemu_put_be32 [] (ptr_len s) @
       (ucast (ready s) # ucast (data_count s) # take (unat (data_count s)) (data s)))"
  by (simp add: goldfish_tty_save_def qemu_put_be64_def qemu_put_be32_def qemu_put_byte_def
        qemu_put_buffer_def)

lemma legacy_record_eq:
  "legacy_record p32 len r c bytes =
     qemu_put_be32 [] p32 @ (qemu_put_be32 [] len @ (r # c # bytes))"
  by (simp add: legacy_record_def qemu_put_be32_def qemu_put_byte_def qemu_put_buffer_def)

lemma load_current_eq:
  assumes "length bytes = unat c" and "unat c \<le> 128"
  shows "goldfish_tty_load
           (qemu_put_be64 [] p @ (qemu_put_be32 [] len @ (r # c # bytes))) d
           GOLDFISH_TTY_SAVE_VERSION
         = Inr (0, d\<lparr>ptr := p, ptr_len := len, ready := ucast r, data_count := ucast c,
                     data := bytes @ drop (length bytes) (data d),
                     irq := ((ucast r :: 32 word) \<noteq> 0 \<and> (ucast c :: 32 word) > 0)\<rparr>)"
  using assms
  by (simp add: goldfish_tty_load_def GOLDFISH_TTY_SAVE_VERSION_def get_put_be64 get_put_be32
        qemu_get_byte_def qemu_get_buffer_def unat_ucast_byte Let_def)

lemma load_legacy_eq:
  assumes "length bytes = unat c" and "unat c \<le> 128"
  shows "goldfish_tty_load
           (qemu_put_be32 [] p32 @ (qemu_put_be32 [] len @ (r # c # bytes))) d
           (GOLDFISH_TTY_SAVE_VERSION - 1)
         = Inr (0, d\<lparr>ptr := ucast p32, ptr_len := len, ready := ucast r, data_count := ucast c,
                     data := bytes @ drop (length bytes) (data d),
                     irq := ((ucast r :: 32 word) \<noteq> 0 \<and> (ucast c :: 32 word) > 0)\<rparr>)"
  using assms
  by (simp add: goldfish_tty_load_def GOLDFISH_TTY_SAVE_VERSION_def get_put_be32
        qemu_get_byte_def qemu_get_buffer_def unat_ucast_byte Let_def)

lemma load_bad_version:
  "v \<noteq> GOLDFISH_TTY_SAVE_VERSION \<Longrightarrow> v \<noteq> GOLDFISH_TTY_SAVE_VERSION - 1 \<Longrightarrow>
   goldfish_tty_load f d v = Inr (-1, d)"
  by (simp add: goldfish_tty_load_def)

lemma tty_cmd_persistable:
  assumes "tty_persistable s"
  shows "tty_persistable (outcome_state (tty_cmd tg s v))"
proof -
  from assms have wf: "tty_wf s" and r: "ready s < 256" by (simp_all add: tty_persistable_def)
  consider (dis) "v = TTY_CMD_INT_DISABLE" | (en) "v = TTY_CMD_INT_ENABLE"
    | (wr) "v = TTY_CMD_WRITE_BUFFER" | (rd) "v = TTY_CMD_READ_BUFFER"
    | (bad) "v \<noteq> TTY_CMD_INT_DISABLE" "v \<noteq> TTY_CMD_INT_ENABLE" "v \<noteq> TTY_CMD_WRITE_BUFFER"
        "v \<noteq> TTY_CMD_READ_BUFFER"
    by blast
  then show ?thesis
  proof cases
    case dis
    with assms show ?thesis by (simp add: tty_cmd_def tty_persistable_def tty_wf_def)
  next
    case en
    with assms show ?thesis
      by (simp add: tty_cmd_def tty_persistable_def tty_wf_def TTY_CMD_INT_ENABLE_def
            TTY_CMD_INT_DISABLE_def)
  next
    case wr
    with assms show ?thesis
      by (simp add: tty_cmd_def tty_persistable_def tty_wf_def TTY_CMD_INT_ENABLE_def
            TTY_CMD_INT_DISABLE_def TTY_CMD_WRITE_BUFFER_def write_buffer_loop_fields)
  next
    case rd
    show ?thesis
    proof (cases "ptr_len s \<le> data_count s")
      case True
      with wf obtain s' where s': "tty_cmd tg s TTY_CMD_READ_BUFFER = Done s'"
        "data_count s' = data_count s - ptr_len s" "length (data s') = 128"
        "ready s' = ready s"
        by (rule legal_drain [where tg = tg])
      have "data_count s - ptr_len s \<le> data_count s"
        using True by (simp add: word_sub_le)
      moreover from wf have "data_count s \<le> 128" by (simp add: tty_wf_def)
      ultimately have "data_count s' \<le> 128" unfolding s'(2) by (rule order_trans)
      then show ?thesis
        using r s' rd by (simp add: tty_persistable_def tty_wf_def)
    next
      case False
      with assms rd show ?thesis by (simp add: read_buffer_eq not_le)
    qed
  next
    case bad
    with assms show ?thesis by (simp add: tty_cmd_def)
  qed
qed

lemma goldfish_tty_write_persistable:
  "tty_persistable s \<Longrightarrow> tty_persistable (outcome_state (goldfish_tty_write tg s offset v))"
  using tty_cmd_persistable [of s tg v]
  by (simp add: goldfish_tty_write_def) (simp add: tty_persistable_def tty_wf_def)

lemma tty_receive_persistable:
  assumes "tty_persistable s"
  shows "tty_persistable (outcome_state (tty_receive s buf))"
proof (cases "unat (data_count s) + length buf > 128")
  case True
  with assms show ?thesis by (simp add: tty_receive_def)
next
  case False
  then have "unat (data_count s + of_nat (length buf)) = unat (data_count s) + length buf"
    by (simp add: unat_word_ariths unat_of_nat)
  with False have "data_count s + of_nat (length buf) \<le> 128"
    by (simp add: word_le_nat_alt)
  with assms False show ?thesis
    by (simp add: tty_receive_def tty_persistable_def tty_wf_def Let_def)
qed

lemma tty_run_persistable:
  "tty_persistable s \<Longrightarrow> tty_persistable (outcome_state (tty_run tg s ops))"
proof (induction ops arbitrary: s)
  case Nil
  then show ?case by simp
next
  case (Cons op ops)
  have step: "tty_persistable (outcome_state (tty_step tg s op))"
    using Cons.prems
    by (cases op) (simp_all add: tty_step_def goldfish_tty_write_persistable tty_receive_persistable)
  show ?case
  proof (cases "tty_step tg s op")
    case (Done s')
    with step Cons.IH [of s'] show ?thesis by simp
  next
    case (Aborted e s')
    with step show ?thesis by simp
  qed
qed

lemma tty_init_persistable: "tty_persistable (tty_init c m)"
  by (simp add: tty_persistable_def tty_wf_def tty_init_def)

text \<open>
  Claim C8. For every persistable device state (a well-formed device whose \<open>ready\<close> fits its
  byte, which is every state the device reaches), loading what \<^verbatim>\<open>goldfish_tty_save\<close> wrote,
  as the current version, into any device succeeds and restores the same buffer pointer,
  buffer length, ready flag, occupancy count and buffered bytes, and drives the interrupt
  line high exactly when the restored ready flag is set and the occupancy is greater than
  zero. A record of the immediately prior version is decoded with its pointer field read as
  a 32-bit value and zero-extended, the remaining fields as in the current version. A
  version that is neither the current nor the prior one makes the load return -1 and leave
  the device unchanged.
\<close>

theorem save_load_round_trip:
  assumes "tty_persistable s"
  shows "(\<exists>s'. goldfish_tty_load (goldfish_tty_save [] s) d GOLDFISH_TTY_SAVE_VERSION = Inr (0, s') \<and>
            ptr s' = ptr s \<and> ptr_len s' = ptr_len s \<and> ready s' = ready s \<and>
            data_count s' = data_count s \<and>
            take (unat (data_count s)) (data s') = take (unat (data_count s)) (data s) \<and>
            irq s' = (ready s' \<noteq> 0 \<and> data_count s' > 0)) \<and>
         (length bytes = unat c \<and> unat c \<le> 128 \<longrightarrow>
            (\<exists>s'. goldfish_tty_load (legacy_record p32 len r c bytes) d
                    (GOLDFISH_TTY_SAVE_VERSION - 1) = Inr (0, s') \<and>
               ptr s' = ucast p32 \<and> ptr_len s' = len \<and> ready s' = ucast r \<and>
               data_count s' = ucast c \<and> take (unat c) (data s') = bytes \<and>
               irq s' = (ready s' \<noteq> 0 \<and> data_count s' > 0))) \<and>
         (v \<noteq> GOLDFISH_TTY_SAVE_VERSION \<and> v \<noteq> GOLDFISH_TTY_SAVE_VERSION - 1 \<longrightarrow>
            goldfish_tty_load f d v = Inr (-1, d))"
proof (intro conjI impI)
  from assms have len: "length (data s) = 128" and c: "data_count s \<le> 128"
    and r: "ready s < 256"
    by (simp_all add: tty_persistable_def tty_wf_def)
  from c have c256: "data_count s < 256"
    by (simp add: word_le_nat_alt word_less_nat_alt)
  have rr: "(ucast (ucast (ready s) :: 8 word) :: 32 word) = ready s"
    using r by (rule ucast_byte_id)
  have cc: "(ucast (ucast (data_count s) :: 8 word) :: 32 word) = data_count s"
    using c256 by (rule ucast_byte_id)
  have uc: "unat (ucast (data_count s) :: 8 word) = unat (data_count s)"
    using unat_ucast_byte [of "ucast (data_count s)"] by (simp add: cc)
  have c128: "unat (data_count s) \<le> 128"
    using c by (simp add: word_le_nat_alt)
  have lb: "length (take (unat (data_count s)) (data s)) = unat (ucast (data_count s) :: 8 word)"
    using len c128 by (simp add: uc)
  have "goldfish_tty_load (goldfish_tty_save [] s) d GOLDFISH_TTY_SAVE_VERSION =
     Inr (0, d\<lparr>ptr := ptr s, ptr_len := ptr_len s, ready := ucast (ucast (ready s) :: 8 word),
                data_count := ucast (ucast (data_count s) :: 8 word),
                data := take (unat (data_count s)) (data s)
                          @ drop (length (take (unat (data_count s)) (data s))) (data d),
                irq := ((ucast (ucast (ready s) :: 8 word) :: 32 word) \<noteq> 0 \<and>
                        (ucast (ucast (data_count s) :: 8 word) :: 32 word) > 0)\<rparr>)"
    unfolding save_eq by (rule load_current_eq [OF lb]) (simp add: uc c128)
  then show "\<exists>s'. goldfish_tty_load (goldfish_tty_save [] s) d GOLDFISH_TTY_SAVE_VERSION = Inr (0, s') \<and>
            ptr s' = ptr s \<and> ptr_len s' = ptr_len s \<and> ready s' = ready s \<and>
            data_count s' = data_count s \<and>
            take (unat (data_count s)) (data s') = take (unat (data_count s)) (data s) \<and>
            irq s' = (ready s' \<noteq> 0 \<and> data_count s' > 0)"
    using len c128 by (simp add: rr cc)
next
  assume "length bytes = unat c \<and> unat c \<le> 128"
  then have a: "length bytes = unat c" and b: "unat c \<le> 128" by simp_all
  show "\<exists>s'. goldfish_tty_load (legacy_record p32 len r c bytes) d
                    (GOLDFISH_TTY_SAVE_VERSION - 1) = Inr (0, s') \<and>
               ptr s' = ucast p32 \<and> ptr_len s' = len \<and> ready s' = ucast r \<and>
               data_count s' = ucast c \<and> take (unat c) (data s') = bytes \<and>
               irq s' = (ready s' \<noteq> 0 \<and> data_count s' > 0)"
    unfolding legacy_record_eq load_legacy_eq [OF a b] using a by simp
next
  assume "v \<noteq> GOLDFISH_TTY_SAVE_VERSION \<and> v \<noteq> GOLDFISH_TTY_SAVE_VERSION - 1"
  then show "goldfish_tty_load f d v = Inr (-1, d)"
    by (simp add: load_bad_version)
qed


theorem save_load_round_trip_witness:
  "tty_persistable tty_two_bytes \<and>
   (\<exists>s'. goldfish_tty_load (goldfish_tty_save [] tty_two_bytes) (tty_init True (\<lambda>_. 0)) 2
            = Inr (0, s') \<and>
         ptr s' = 0x1000 \<and> ptr_len s' = 3 \<and> ready s' = 1 \<and> data_count s' = 2 \<and>
         take 2 (data s') = [7, 9] \<and> irq s') \<and>
   (\<exists>s'. goldfish_tty_load (legacy_record 0x2000 1 1 2 [5, 6]) (tty_init True (\<lambda>_. 0)) 1
            = Inr (0, s') \<and>
         ptr s' = 0x2000 \<and> ptr_len s' = 1 \<and> ready s' = 1 \<and> data_count s' = 2 \<and>
         take 2 (data s') = [5, 6] \<and> irq s') \<and>
   goldfish_tty_load [] (tty_init True (\<lambda>_. 0)) 3 = Inr (-1, tty_init True (\<lambda>_. 0))"
proof -
  have p: "tty_persistable tty_two_bytes"
    by (simp add: tty_persistable_def tty_wf_def tty_two_bytes_def)
  have f: "ptr tty_two_bytes = 0x1000" "ptr_len tty_two_bytes = 3" "ready tty_two_bytes = 1"
    "data_count tty_two_bytes = 2" "take 2 (data tty_two_bytes) = [7, 9]"
    by (simp_all add: tty_two_bytes_def)
  show ?thesis
    using save_load_round_trip [OF p, of "tty_init True (\<lambda>_. 0)" "[5, 6]" 2 "0x2000" 1 1 3 "[]"]
    by (simp add: p f GOLDFISH_TTY_SAVE_VERSION_def) force
qed

section \<open>Properties of the Socket Tunnel Endpoint\<close>

subsection \<open>The byte mover\<close>

lemma moved_snoc: "moved (tr @ [(a, l)]) = moved tr + (if l > 0 then l else 0)"
  by (simp add: moved_def)

lemma moved_nonneg: "0 \<le> moved tr"
  unfolding moved_def by (induction tr) auto

lemma moved_Cons: "moved (c # rest) = (if snd c > 0 then snd c else 0) + moved rest"
  by (simp add: moved_def)

lemma moved_pos_all:
  assumes "list_all (\<lambda>c. snd c > 0) tr" and "tr \<noteq> []"
  shows "0 < moved tr"
proof (cases tr)
  case Nil
  with assms show ?thesis by simp
next
  case (Cons c rest)
  with assms have "snd c > 0" by simp
  with moved_nonneg [of rest] show ?thesis by (simp add: Cons moved_Cons)
qed

lemma sum_list_drop_Suc:
  "bi < length sizes \<Longrightarrow> sum_list (drop bi sizes) = sizes ! bi + sum_list (drop (Suc bi) sizes)"
  by (simp add: Cons_nth_drop_Suc [symmetric])

lemma buffers_loop_post:
  "sock_ok sock \<Longrightarrow> loop_inv sizes bi buff_start count ret tr \<Longrightarrow>
   \<exists>r tr'. buffers_loop sock sizes bi buff_start count ret tr = Inr (r, tr') \<and> loop_post r tr'"
proof (induction sock sizes bi buff_start count ret tr rule: buffers_loop.induct)
  case (1 sock sizes bi buff_start count ret tr)
  note ok = "1.prems"(1) and inv = "1.prems"(2)
  from inv have cnt: "count = int (sum_list (drop bi sizes)) - buff_start"
    and bs0: "0 \<le> buff_start" and rm: "ret = moved tr" and allpos: "list_all (\<lambda>c. snd c > 0) tr"
    by (simp_all add: loop_inv_def)
  show ?case
  proof (cases "count > 0")
    case False
    have "loop_post ret tr"
    proof (cases "tr = []")
      case True
      then show ?thesis using rm by (simp add: loop_post_def moved_def)
    next
      case False
      with allpos have "0 < moved tr" by (rule moved_pos_all)
      then show ?thesis using rm by (simp add: loop_post_def)
    qed
    with False show ?thesis by (simp add: buffers_loop.simps)
  next
    case True
    have inr: "bi < length sizes"
    proof (rule ccontr)
      assume "\<not> bi < length sizes"
      with inv have "count = 0" by (simp add: loop_inv_def)
      with True show False by simp
    qed
    with inv have bsle: "buff_start \<le> int (sizes ! bi)" by (simp add: loop_inv_def)
    define avail where "avail = int (sizes ! bi) - buff_start"
    obtain len err where so: "sock (length tr) avail = (len, err)" by (cases "sock (length tr) avail")
    define tr' where "tr' = tr @ [(avail, len)]"
    from bsle have av0: "0 \<le> avail" by (simp add: avail_def)
    from so av0 have lenle: "len \<le> avail"
      using spec [OF spec [OF ok [unfolded sock_ok_def], of "length tr"], of avail] by simp
    have unf: "buffers_loop sock sizes bi buff_start count ret tr =
        (if len > 0 then
                (if buff_start + len \<ge> int (sizes ! bi)
                 then buffers_loop sock sizes (bi + 1) 0 (count - len) (ret + len) tr'
                 else buffers_loop sock sizes bi (buff_start + len) (count - len) (ret + len) tr')
              else if len = 0 then Inr (if ret = 0 then PIPE_ERROR_IO else ret, tr')
              else if ret > 0 then Inr (ret, tr')
              else if err = EAGAIN \<or> err = EWOULDBLOCK then Inr (PIPE_ERROR_AGAIN, tr')
              else Inr (PIPE_ERROR_IO, tr'))"
      using True inr so
      by (subst buffers_loop.simps) (simp add: avail_def [symmetric] tr'_def Let_def)
    have mtr': "moved tr' = moved tr + (if len > 0 then len else 0)"
      by (simp add: tr'_def moved_snoc)
    have ret0: "0 \<le> ret" using rm moved_nonneg by simp
    show ?thesis
    proof (cases "len > 0")
      case lenpos: True
      have allpos': "list_all (\<lambda>c. snd c > 0) tr'" using allpos lenpos by (simp add: tr'_def)
      have rm': "ret + len = moved tr'" using rm lenpos by (simp add: mtr')
      show ?thesis
      proof (cases "buff_start + len \<ge> int (sizes ! bi)")
        case adv: True
        with lenle have eq: "buff_start + len = int (sizes ! bi)" by (simp add: avail_def)
        have "loop_inv sizes (bi + 1) 0 (count - len) (ret + len) tr'"
          using cnt eq rm' allpos' sum_list_drop_Suc [OF inr]
          by (simp add: loop_inv_def)
        from "1.IH"(1) [OF True inr avail_def refl so [symmetric] tr'_def lenpos adv ok this]
        show ?thesis using unf lenpos adv by simp
      next
        case stay: False
        have "loop_inv sizes bi (buff_start + len) (count - len) (ret + len) tr'"
          using cnt stay rm' allpos' inr bs0 lenpos
          by (simp add: loop_inv_def)
        from "1.IH"(2) [OF True inr avail_def refl so [symmetric] tr'_def lenpos stay ok this]
        show ?thesis using unf lenpos stay by simp
      qed
    next
      case nonpos: False
      have m: "moved tr' = ret" using rm nonpos by (simp add: mtr')
      have ne: "tr' \<noteq> []" "snd (last tr') = len" by (simp_all add: tr'_def)
      show ?thesis
      proof (cases "len = 0")
        case True
        then show ?thesis using unf m ne ret0
          by (auto simp: loop_post_def)
      next
        case False
        with nonpos have "len < 0" by simp
        then show ?thesis using unf m ne ret0
          by (auto simp: loop_post_def)
      qed
    qed
  qed
qed

lemma loop_inv_start: "loop_inv sizes 0 0 (int (sum_list sizes)) 0 []"
  by (simp add: loop_inv_def moved_def)

lemma loop_post_contract: "loop_post r tr \<Longrightarrow> byte_mover_contract r tr"
  using moved_nonneg [of tr]
  by (auto simp: loop_post_def byte_mover_contract_def PIPE_ERROR_AGAIN_def)

lemma buffers_loop_contract:
  assumes "sock_ok sock"
  shows "\<exists>r tr. buffers_loop sock sizes 0 0 (int (sum_list sizes)) 0 [] = Inr (r, tr) \<and>
                byte_mover_contract r tr"
  using buffers_loop_post [OF assms loop_inv_start [of sizes]] loop_post_contract by blast

lemma ready_send_cases:
  "net_pipe_ready_send p = 0 \<or> net_pipe_ready_send p = PIPE_ERROR_AGAIN \<or>
   net_pipe_ready_send p = PIPE_ERROR_INVAL \<or> net_pipe_ready_send p = PIPE_ERROR_IO"
  by (simp add: net_pipe_ready_send_def)

lemma contract_no_calls: "byte_mover_contract r []"
  by (simp add: byte_mover_contract_def moved_def)

lemma sock_partial_ok: "sock_ok sock_partial"
  by (auto simp: sock_ok_def sock_partial_def)

text \<open>
  Claim C1. Let the segment sizes fit an \<^verbatim>\<open>int\<close> and the socket never report more bytes than
  it was asked for. Then every send and every recv call returns, and with \<open>moved\<close> the sum
  of the bytes moved by the system calls that succeeded: the call returns that sum whenever
  it is non-zero, whatever the last system call answered; it returns "try again" only when
  the sum is zero; and when the last system call hit the end of the stream with nothing
  moved, it returns the I/O error.
\<close>

theorem byte_mover_returns_bytes_moved:
  assumes "sizes_ok sizes" and "sock_ok sock"
  shows "(\<exists>r tr. net_pipe_send_buffers p sock sizes = Inr (r, tr, p) \<and> byte_mover_contract r tr) \<and>
         (\<exists>r tr. net_pipe_recv_buffers p sock sizes = Inr (r, tr, p) \<and> byte_mover_contract r tr)"
proof -
  from buffers_loop_contract [OF assms(2), of sizes] obtain r tr where
    l: "buffers_loop sock sizes 0 0 (int (sum_list sizes)) 0 [] = Inr (r, tr)"
    and c: "byte_mover_contract r tr"
    by blast
  have recv: "net_pipe_recv_buffers p sock sizes = Inr (r, tr, p)"
    by (simp add: net_pipe_recv_buffers_def l)
  have send: "\<exists>r tr. net_pipe_send_buffers p sock sizes = Inr (r, tr, p) \<and> byte_mover_contract r tr"
  proof (cases "net_pipe_ready_send p = 0")
    case True
    then have "net_pipe_send_buffers p sock sizes = Inr (r, tr, p)"
      by (simp add: net_pipe_send_buffers_def l)
    with c show ?thesis by blast
  next
    case False
    then have "net_pipe_send_buffers p sock sizes = Inr (net_pipe_ready_send p, [], p)"
      by (simp add: net_pipe_send_buffers_def)
    with contract_no_calls show ?thesis by blast
  qed
  from send recv c show ?thesis by blast
qed

theorem byte_mover_returns_bytes_moved_witness:
  "sizes_ok [4, 6] \<and> sock_ok sock_partial \<and>
   net_pipe_recv_buffers pipe_connected sock_partial [4, 6]
     = Inr (4, [(4, 3), (1, 1), (6, -1)], pipe_connected) \<and>
   byte_mover_contract 4 [(4, 3), (1, 1), (6, -1)] \<and>
   moved [(4, 3), (1, 1), (6, -1)] = 4"
proof -
  have s: "sizes_ok [4, 6]" by (simp add: sizes_ok_def INT_MAX_def)
  have e: "net_pipe_recv_buffers pipe_connected sock_partial [4, 6]
             = Inr (4, [(4, 3), (1, 1), (6, -1)], pipe_connected)"
    by (simp add: net_pipe_recv_buffers_def buffers_loop.simps sock_partial_def)
  from byte_mover_returns_bytes_moved [OF s sock_partial_ok, of pipe_connected]
  have "byte_mover_contract 4 [(4, 3), (1, 1), (6, -1)]"
    by (simp add: e)
  moreover have "moved [(4, 3), (1, 1), (6, -1)] = 4" by (simp add: moved_def)
  ultimately show ?thesis using s sock_partial_ok e by simp
qed

subsection \<open>Transfers of no bytes\<close>

text \<open>
  Claim C10. In the Connected state, a send or recv call over segments whose sizes add up to
  zero returns 0, which is neither "try again" nor an error, makes no system call and
  leaves the connection as it was.
\<close>

theorem zero_length_transfer:
  assumes "state p = STATE_CONNECTED" and "sum_list sizes = 0"
  shows "net_pipe_send_buffers p sock sizes = Inr (0, [], p) \<and>
         net_pipe_recv_buffers p sock sizes = Inr (0, [], p)"
proof -
  have "buffers_loop sock sizes 0 0 (int (sum_list sizes)) 0 [] = Inr (0, [])"
    unfolding assms(2) by (simp add: buffers_loop.simps)
  then show ?thesis
    using assms(1)
    by (simp add: net_pipe_send_buffers_def net_pipe_recv_buffers_def net_pipe_ready_send_def)
qed

theorem zero_length_transfer_witness:
  "state pipe_connected = STATE_CONNECTED \<and> sum_list [0, 0 :: nat] = 0 \<and>
   net_pipe_send_buffers pipe_connected sock_full [0, 0] = Inr (0, [], pipe_connected) \<and>
   net_pipe_recv_buffers pipe_connected sock_full [0, 0] = Inr (0, [], pipe_connected)"
proof -
  have a: "state pipe_connected = STATE_CONNECTED"
    by (simp add: pipe_connected_def pipe_connecting_def)
  have b: "sum_list [0, 0 :: nat] = 0" by simp
  from zero_length_transfer [OF a b, of sock_full] a b show ?thesis by simp
qed

subsection \<open>Which states allow socket I/O\<close>

lemma send_legality:
  assumes "state p \<noteq> STATE_CONNECTED"
  shows "\<exists>r. net_pipe_send_buffers p sock sizes = Inr (r, [], p) \<and>
             (state p = STATE_CONNECTING \<longrightarrow> r = PIPE_ERROR_AGAIN) \<and>
             (state p \<noteq> STATE_CONNECTING \<and> hwpipe p = None \<longrightarrow> r = PIPE_ERROR_INVAL) \<and>
             (state p \<noteq> STATE_CONNECTING \<and> hwpipe p \<noteq> None \<longrightarrow> r = PIPE_ERROR_IO)"
  using assms
  by (auto simp: net_pipe_send_buffers_def net_pipe_ready_send_def PIPE_ERROR_AGAIN_def
        PIPE_ERROR_INVAL_def PIPE_ERROR_IO_def)

text \<open>
  Claim C2, on the code. \<^verbatim>\<open>net_pipe_send_buffers\<close> asks \<^verbatim>\<open>net_pipe_ready_send\<close> first and makes
  no system call outside the Connected state; \<^verbatim>\<open>net_pipe_recv_buffers\<close> has no such check.
  On a connection that is still Connecting, a recv over one segment of four bytes calls
  \<^verbatim>\<open>recv\<close> on the socket: it returns the four bytes if the socket has them, and the I/O
  error if the socket refuses, where the same send returns "try again" without a system
  call. After a failed connect (a closing state) recv still calls the socket, where send
  returns "invalid handle".
\<close>

theorem recv_has_no_state_check:
  "state pipe_connecting = STATE_CONNECTING \<and>
   net_pipe_recv_buffers pipe_connecting sock_full [4] = Inr (4, [(4, 4)], pipe_connecting) \<and>
   net_pipe_recv_buffers pipe_connecting sock_refuses [4]
     = Inr (PIPE_ERROR_IO, [(4, -1)], pipe_connecting) \<and>
   net_pipe_send_buffers pipe_connecting sock_full [4]
     = Inr (PIPE_ERROR_AGAIN, [], pipe_connecting) \<and>
   state (net_pipe_connect_handler pipe_connecting (-1)) = STATE_CLOSING_SOCKET \<and>
   net_pipe_recv_buffers (net_pipe_connect_handler pipe_connecting (-1)) sock_full [4]
     = Inr (4, [(4, 4)], net_pipe_connect_handler pipe_connecting (-1)) \<and>
   net_pipe_send_buffers (net_pipe_connect_handler pipe_connecting (-1)) sock_full [4]
     = Inr (PIPE_ERROR_INVAL, [], net_pipe_connect_handler pipe_connecting (-1))"
  by (simp add: net_pipe_recv_buffers_def net_pipe_send_buffers_def net_pipe_ready_send_def
        buffers_loop.simps sock_full_def sock_refuses_def pipe_connecting_def
        net_pipe_connect_handler_def net_pipe_close_from_socket_def net_pipe_reset_state_def
        PIPE_ERROR_AGAIN_def PIPE_ERROR_INVAL_def PIPE_ERROR_IO_def)

subsection \<open>Arming wakes\<close>

lemma wake_bits:
  "(x AND NOT PIPE_WAKE_READ) AND PIPE_WAKE_READ = 0"
  "(x AND NOT PIPE_WAKE_WRITE) AND PIPE_WAKE_WRITE = 0"
  "(x AND NOT PIPE_WAKE_WRITE) AND PIPE_WAKE_READ = x AND PIPE_WAKE_READ"
  "(x AND NOT PIPE_WAKE_READ) AND PIPE_WAKE_WRITE = x AND PIPE_WAKE_WRITE"
  "(x OR PIPE_WAKE_READ) AND PIPE_WAKE_READ = PIPE_WAKE_READ"
  "(x OR PIPE_WAKE_WRITE) AND PIPE_WAKE_WRITE = PIPE_WAKE_WRITE"
  "PIPE_WAKE_READ \<noteq> 0" "PIPE_WAKE_WRITE \<noteq> 0"
  by (simp_all add: PIPE_WAKE_READ_def PIPE_WAKE_WRITE_def and.assoc)

lemma or_and_nonzero:
  "((x OR flags) AND (d :: 32 word) \<noteq> 0) = (x AND d \<noteq> 0 \<or> flags AND d \<noteq> 0)"
  by (auto simp: bit.conj_disj_distrib2 or_eq_0_iff)

text \<open>
  Claim C6. For every connection and every set of directions, \<^verbatim>\<open>net_pipe_wake_on\<close> ORs the
  directions into \<open>wakeWanted\<close>, clears them from \<open>wakeActual\<close>, leaves the state alone, and
  afterwards the write-ready callback is registered exactly when write-wake is wanted and the
  read-ready callback exactly when the connection is Connected and read-wake is wanted; in
  particular no read-ready callback is registered while the connection is Connecting.
\<close>

theorem wake_on_registers_callbacks:
  "wakeWanted (net_pipe_wake_on p flags) = wakeWanted p OR flags \<and>
   wakeActual (net_pipe_wake_on p flags) = wakeActual p AND NOT flags \<and>
   state (net_pipe_wake_on p flags) = state p \<and>
   write_handler (net_pipe_wake_on p flags)
     = (wakeWanted (net_pipe_wake_on p flags) AND PIPE_WAKE_WRITE \<noteq> 0) \<and>
   read_handler (net_pipe_wake_on p flags)
     = (state (net_pipe_wake_on p flags) = STATE_CONNECTED \<and>
        wakeWanted (net_pipe_wake_on p flags) AND PIPE_WAKE_READ \<noteq> 0) \<and>
   \<not> (state p = STATE_CONNECTING \<and> read_handler (net_pipe_wake_on p flags))"
  by (simp add: net_pipe_wake_on_def net_pipe_reset_state_def)

theorem wake_on_registers_callbacks_witness:
  "wakeWanted (net_pipe_wake_on pipe_connecting 6) = 6 \<and>
   write_handler (net_pipe_wake_on pipe_connecting 6) \<and>
   \<not> read_handler (net_pipe_wake_on pipe_connecting 6) \<and>
   write_handler (net_pipe_wake_on pipe_connected 6) \<and>
   read_handler (net_pipe_wake_on pipe_connected 6) \<and>
   \<not> write_handler (net_pipe_wake_on pipe_connected 2)"
proof -
  have c: "state pipe_connecting = STATE_CONNECTING" "wakeWanted pipe_connecting = 0"
    "state pipe_connected = STATE_CONNECTED" "wakeWanted pipe_connected = 0"
    by (simp_all add: pipe_connecting_def pipe_connected_def)
  show ?thesis
    using wake_on_registers_callbacks [of pipe_connecting 6]
      wake_on_registers_callbacks [of pipe_connected 6]
      wake_on_registers_callbacks [of pipe_connected 2]
    by (simp add: c PIPE_WAKE_READ_def PIPE_WAKE_WRITE_def)
qed

subsection \<open>Wake notifications\<close>

lemma new_events_append: "guest_log p' = guest_log p @ xs \<Longrightarrow> new_events p p' = xs"
  by (simp add: new_events_def)

lemma read_handler_armed:
  assumes "wakeWanted p AND PIPE_WAKE_READ \<noteq> 0"
  shows "guest_log (net_pipe_read_handler p)
           = guest_log p @ [Wake (hwpipe p) (wakeActual p OR PIPE_WAKE_READ)]"
    and "wakeWanted (net_pipe_read_handler p) = wakeWanted p AND NOT PIPE_WAKE_READ"
  using assms by (simp_all add: net_pipe_read_handler_def net_pipe_reset_state_def Let_def)

lemma read_handler_unarmed:
  assumes "wakeWanted p AND PIPE_WAKE_READ = 0"
  shows "guest_log (net_pipe_read_handler p) = guest_log p"
    and "wakeWanted (net_pipe_read_handler p) = wakeWanted p"
  using assms by (simp_all add: net_pipe_read_handler_def net_pipe_reset_state_def Let_def)

lemma read_handler_actual:
  "wakeActual (net_pipe_read_handler p) = wakeActual p OR PIPE_WAKE_READ"
  by (simp add: net_pipe_read_handler_def net_pipe_reset_state_def Let_def)

lemma write_handler_armed:
  assumes "wakeWanted p AND PIPE_WAKE_WRITE \<noteq> 0"
  shows "guest_log (net_pipe_write_handler p)
           = guest_log p @ [Wake (hwpipe p) (wakeActual p OR PIPE_WAKE_WRITE)]"
    and "wakeWanted (net_pipe_write_handler p) = wakeWanted p AND NOT PIPE_WAKE_WRITE"
  using assms by (simp_all add: net_pipe_write_handler_def net_pipe_reset_state_def Let_def)

lemma write_handler_unarmed:
  assumes "wakeWanted p AND PIPE_WAKE_WRITE = 0"
  shows "guest_log (net_pipe_write_handler p) = guest_log p"
    and "wakeWanted (net_pipe_write_handler p) = wakeWanted p"
  using assms by (simp_all add: net_pipe_write_handler_def net_pipe_reset_state_def Let_def)

lemma write_handler_actual:
  "wakeActual (net_pipe_write_handler p) = wakeActual p OR PIPE_WAKE_WRITE"
  by (simp add: net_pipe_write_handler_def net_pipe_reset_state_def Let_def)

lemma read_handler_clears: "wakeWanted (net_pipe_read_handler p) AND PIPE_WAKE_READ = 0"
  by (cases "wakeWanted p AND PIPE_WAKE_READ = 0")
     (simp_all add: read_handler_armed read_handler_unarmed wake_bits)

lemma write_handler_clears: "wakeWanted (net_pipe_write_handler p) AND PIPE_WAKE_WRITE = 0"
  by (cases "wakeWanted p AND PIPE_WAKE_WRITE = 0")
     (simp_all add: write_handler_armed write_handler_unarmed wake_bits)

lemma read_handler_keeps_write:
  "wakeWanted (net_pipe_read_handler p) AND PIPE_WAKE_WRITE = wakeWanted p AND PIPE_WAKE_WRITE"
  by (cases "wakeWanted p AND PIPE_WAKE_READ = 0")
     (simp_all add: read_handler_armed read_handler_unarmed wake_bits)

lemma write_handler_keeps_read:
  "wakeWanted (net_pipe_write_handler p) AND PIPE_WAKE_READ = wakeWanted p AND PIPE_WAKE_READ"
  by (cases "wakeWanted p AND PIPE_WAKE_WRITE = 0")
     (simp_all add: write_handler_armed write_handler_unarmed wake_bits)

lemma send_keeps_pipe:
  "(case net_pipe_send_buffers p sock sizes of Inl _ \<Rightarrow> p | Inr (_, _, p') \<Rightarrow> p') = p"
  by (simp add: net_pipe_send_buffers_def Let_def split: sum.splits prod.splits)

lemma recv_keeps_pipe:
  "(case net_pipe_recv_buffers p sock sizes of Inl _ \<Rightarrow> p | Inr (_, _, p') \<Rightarrow> p') = p"
  by (simp add: net_pipe_recv_buffers_def split: sum.splits prod.splits)

lemma close_from_socket_log:
  "guest_log (net_pipe_close_from_socket p)
     = guest_log p @ (if state p = STATE_CLOSING_GUEST then []
                      else close_notice (hwpipe p))"
  by (simp add: net_pipe_close_from_socket_def net_pipe_free_def net_pipe_reset_state_def Let_def
        close_notice_def split: option.splits)

lemma close_from_socket_wanted:
  "wakeWanted (net_pipe_close_from_socket p) = wakeWanted p"
  by (simp add: net_pipe_close_from_socket_def net_pipe_free_def net_pipe_reset_state_def Let_def
        split: option.splits)

lemma connect_handler_log:
  "guest_log (net_pipe_connect_handler p fd_arg)
     = guest_log p @ (if fd_arg < 0 \<and> state p \<noteq> STATE_CLOSING_GUEST
                      then close_notice (hwpipe p) else [])"
  by (simp add: net_pipe_connect_handler_def close_from_socket_log net_pipe_reset_state_def)

lemma connect_handler_wanted:
  "wakeWanted (net_pipe_connect_handler p fd_arg) = wakeWanted p"
  by (simp add: net_pipe_connect_handler_def close_from_socket_wanted net_pipe_reset_state_def)

lemma wake_on_log: "guest_log (net_pipe_wake_on p flags) = guest_log p"
  by (simp add: net_pipe_wake_on_def net_pipe_reset_state_def)

lemma free_log: "guest_log (net_pipe_free p) = guest_log p"
  by (simp add: net_pipe_free_def)

lemma free_wanted: "wakeWanted (net_pipe_free p) = wakeWanted p"
  by (simp add: net_pipe_free_def)

lemma read_step_count:
  "(case e of ReadReady \<Rightarrow> length (new_events p (net_step p e)) | _ \<Rightarrow> 0)
     + wanted_bit (net_step p e) PIPE_WAKE_READ
   \<le> (case e of WakeOn flags \<Rightarrow> (if flags AND PIPE_WAKE_READ \<noteq> 0 then 1 else 0) | _ \<Rightarrow> 0)
     + wanted_bit p PIPE_WAKE_READ"
proof (cases "freed p")
  case True
  then show ?thesis by (cases e) (simp_all add: net_step_def new_events_def)
next
  case False
  show ?thesis
  proof (cases e)
    case (ConnectDone fd_arg)
    with False show ?thesis by (simp add: net_step_def wanted_bit_def connect_handler_wanted)
  next
    case ReadReady
    show ?thesis
    proof (cases "wakeWanted p AND PIPE_WAKE_READ = 0")
      case True
      with False ReadReady show ?thesis
        by (simp add: net_step_def wanted_bit_def read_handler_unarmed new_events_def)
    next
      case armed: False
      with False ReadReady show ?thesis
        by (simp add: net_step_def wanted_bit_def read_handler_armed new_events_def wake_bits)
    qed
  next
    case WriteReady
    with False show ?thesis by (simp add: net_step_def wanted_bit_def write_handler_keeps_read)
  next
    case (WakeOn flags)
    with False show ?thesis
      by (simp add: net_step_def wanted_bit_def net_pipe_wake_on_def net_pipe_reset_state_def
            or_and_nonzero)
  next
    case CloseFromGuest
    with False show ?thesis
      by (simp add: net_step_def wanted_bit_def net_pipe_close_from_guest_def free_wanted)
  next
    case (Send sock sizes)
    with False show ?thesis by (simp add: net_step_def send_keeps_pipe)
  next
    case (Recv sock sizes)
    with False show ?thesis by (simp add: net_step_def recv_keeps_pipe)
  qed
qed

lemma write_step_count:
  "(case e of WriteReady \<Rightarrow> length (new_events p (net_step p e)) | _ \<Rightarrow> 0)
     + wanted_bit (net_step p e) PIPE_WAKE_WRITE
   \<le> (case e of WakeOn flags \<Rightarrow> (if flags AND PIPE_WAKE_WRITE \<noteq> 0 then 1 else 0) | _ \<Rightarrow> 0)
     + wanted_bit p PIPE_WAKE_WRITE"
proof (cases "freed p")
  case True
  then show ?thesis by (cases e) (simp_all add: net_step_def new_events_def)
next
  case False
  show ?thesis
  proof (cases e)
    case (ConnectDone fd_arg)
    with False show ?thesis by (simp add: net_step_def wanted_bit_def connect_handler_wanted)
  next
    case WriteReady
    show ?thesis
    proof (cases "wakeWanted p AND PIPE_WAKE_WRITE = 0")
      case True
      with False WriteReady show ?thesis
        by (simp add: net_step_def wanted_bit_def write_handler_unarmed new_events_def)
    next
      case armed: False
      with False WriteReady show ?thesis
        by (simp add: net_step_def wanted_bit_def write_handler_armed new_events_def wake_bits)
    qed
  next
    case ReadReady
    with False show ?thesis by (simp add: net_step_def wanted_bit_def read_handler_keeps_write)
  next
    case (WakeOn flags)
    with False show ?thesis
      by (simp add: net_step_def wanted_bit_def net_pipe_wake_on_def net_pipe_reset_state_def
            or_and_nonzero)
  next
    case CloseFromGuest
    with False show ?thesis
      by (simp add: net_step_def wanted_bit_def net_pipe_close_from_guest_def free_wanted)
  next
    case (Send sock sizes)
    with False show ?thesis by (simp add: net_step_def send_keeps_pipe)
  next
    case (Recv sock sizes)
    with False show ?thesis by (simp add: net_step_def recv_keeps_pipe)
  qed
qed

lemma read_wakes_bound:
  "read_wakes p evs + wanted_bit (net_run p evs) PIPE_WAKE_READ
     \<le> arms PIPE_WAKE_READ evs + wanted_bit p PIPE_WAKE_READ"
proof (induction evs arbitrary: p)
  case Nil
  then show ?case by simp
next
  case (Cons e es)
  from Cons.IH [of "net_step p e"] read_step_count [where e = e and p = p]
  show ?case by simp
qed

lemma write_wakes_bound:
  "write_wakes p evs + wanted_bit (net_run p evs) PIPE_WAKE_WRITE
     \<le> arms PIPE_WAKE_WRITE evs + wanted_bit p PIPE_WAKE_WRITE"
proof (induction evs arbitrary: p)
  case Nil
  then show ?case by simp
next
  case (Cons e es)
  from Cons.IH [of "net_step p e"] write_step_count [where e = e and p = p]
  show ?case by simp
qed

lemma connect_new_events:
  "new_events p (net_pipe_connect_handler p fd_arg)
     = (if fd_arg < 0 \<and> state p \<noteq> STATE_CLOSING_GUEST
        then close_notice (hwpipe p) else [])"
  by (rule new_events_append) (rule connect_handler_log)

lemma close_notice_no_wake: "filter is_wake (close_notice hw) = []"
  by (cases hw) (simp_all add: close_notice_def)

lemma connect_no_wake: "filter is_wake (new_events p (net_pipe_connect_handler p fd_arg)) = []"
  unfolding connect_new_events by (simp add: close_notice_no_wake)

lemma no_wake_without_readiness:
  assumes "\<not> is_ready e"
  shows "filter is_wake (new_events p (net_step p e)) = []"
proof (cases "freed p")
  case True
  then show ?thesis by (simp add: net_step_def new_events_def)
next
  case False
  show ?thesis
  proof (cases e)
    case (ConnectDone fd_arg)
    with False show ?thesis
      by (simp add: net_step_def connect_no_wake)
  next
    case ReadReady
    with assms show ?thesis by simp
  next
    case WriteReady
    with assms show ?thesis by simp
  next
    case (WakeOn flags)
    with False show ?thesis by (simp add: net_step_def new_events_def wake_on_log)
  next
    case CloseFromGuest
    with False show ?thesis
      by (simp add: net_step_def new_events_def net_pipe_close_from_guest_def free_log)
  next
    case (Send sock sizes)
    with False show ?thesis by (simp add: net_step_def new_events_def send_keeps_pipe)
  next
    case (Recv sock sizes)
    with False show ?thesis by (simp add: net_step_def new_events_def recv_keeps_pipe)
  qed
qed

text \<open>
  Claim C5. A read-ready event on a connection that wants the read wake delivers exactly one
  wake notification, whose flags are \<open>wakeActual\<close> with the read bit already recorded in
  it, and clears the read bit from \<open>wakeWanted\<close>; on a connection that does not want it, it
  delivers nothing. Whatever the connection wanted, a second read-ready event right after
  the first delivers nothing. The same holds for write-ready and the write bit. Over any
  sequence of events, the read-ready callback delivers at most as many notifications as
  there were \<^verbatim>\<open>net_pipe_wake_on\<close> calls for the read direction (plus one if the direction was
  wanted at the start), and likewise for write. No event other than a readiness event
  delivers a wake notification.
\<close>

theorem one_wake_per_arm:
  "(wakeWanted p AND PIPE_WAKE_READ \<noteq> 0 \<longrightarrow>
      new_events p (net_pipe_read_handler p)
        = [Wake (hwpipe p) (wakeActual (net_pipe_read_handler p))]) \<and>
   (wakeWanted p AND PIPE_WAKE_READ = 0 \<longrightarrow> new_events p (net_pipe_read_handler p) = []) \<and>
   wakeActual (net_pipe_read_handler p) AND PIPE_WAKE_READ = PIPE_WAKE_READ \<and>
   wakeWanted (net_pipe_read_handler p) AND PIPE_WAKE_READ = 0 \<and>
   new_events (net_pipe_read_handler p) (net_pipe_read_handler (net_pipe_read_handler p)) = [] \<and>
   (wakeWanted p AND PIPE_WAKE_WRITE \<noteq> 0 \<longrightarrow>
      new_events p (net_pipe_write_handler p)
        = [Wake (hwpipe p) (wakeActual (net_pipe_write_handler p))]) \<and>
   (wakeWanted p AND PIPE_WAKE_WRITE = 0 \<longrightarrow> new_events p (net_pipe_write_handler p) = []) \<and>
   wakeActual (net_pipe_write_handler p) AND PIPE_WAKE_WRITE = PIPE_WAKE_WRITE \<and>
   wakeWanted (net_pipe_write_handler p) AND PIPE_WAKE_WRITE = 0 \<and>
   new_events (net_pipe_write_handler p) (net_pipe_write_handler (net_pipe_write_handler p)) = [] \<and>
   read_wakes p evs \<le> arms PIPE_WAKE_READ evs + wanted_bit p PIPE_WAKE_READ \<and>
   write_wakes p evs \<le> arms PIPE_WAKE_WRITE evs + wanted_bit p PIPE_WAKE_WRITE \<and>
   (\<not> is_ready e \<longrightarrow> filter is_wake (new_events p (net_step p e)) = [])"
proof -
  have r1: "wakeWanted p AND PIPE_WAKE_READ \<noteq> 0 \<longrightarrow>
      new_events p (net_pipe_read_handler p)
        = [Wake (hwpipe p) (wakeActual (net_pipe_read_handler p))]"
    by (simp add: new_events_def read_handler_armed read_handler_actual)
  have r2: "wakeWanted p AND PIPE_WAKE_READ = 0 \<longrightarrow> new_events p (net_pipe_read_handler p) = []"
    by (simp add: new_events_def read_handler_unarmed)
  have r3: "wakeActual (net_pipe_read_handler p) AND PIPE_WAKE_READ = PIPE_WAKE_READ"
    by (simp add: read_handler_actual wake_bits)
  have r4: "wakeWanted (net_pipe_read_handler p) AND PIPE_WAKE_READ = 0"
    by (rule read_handler_clears)
  have r5: "new_events (net_pipe_read_handler p)
              (net_pipe_read_handler (net_pipe_read_handler p)) = []"
    by (simp add: new_events_def read_handler_unarmed [OF r4])
  have w1: "wakeWanted p AND PIPE_WAKE_WRITE \<noteq> 0 \<longrightarrow>
      new_events p (net_pipe_write_handler p)
        = [Wake (hwpipe p) (wakeActual (net_pipe_write_handler p))]"
    by (simp add: new_events_def write_handler_armed write_handler_actual)
  have w2: "wakeWanted p AND PIPE_WAKE_WRITE = 0 \<longrightarrow> new_events p (net_pipe_write_handler p) = []"
    by (simp add: new_events_def write_handler_unarmed)
  have w3: "wakeActual (net_pipe_write_handler p) AND PIPE_WAKE_WRITE = PIPE_WAKE_WRITE"
    by (simp add: write_handler_actual wake_bits)
  have w4: "wakeWanted (net_pipe_write_handler p) AND PIPE_WAKE_WRITE = 0"
    by (rule write_handler_clears)
  have w5: "new_events (net_pipe_write_handler p)
              (net_pipe_write_handler (net_pipe_write_handler p)) = []"
    by (simp add: new_events_def write_handler_unarmed [OF w4])
  have c1: "read_wakes p evs \<le> arms PIPE_WAKE_READ evs + wanted_bit p PIPE_WAKE_READ"
    using read_wakes_bound [of p evs] by simp
  have c2: "write_wakes p evs \<le> arms PIPE_WAKE_WRITE evs + wanted_bit p PIPE_WAKE_WRITE"
    using write_wakes_bound [of p evs] by simp
  have n: "\<not> is_ready e \<longrightarrow> filter is_wake (new_events p (net_step p e)) = []"
    by (simp add: no_wake_without_readiness)
  from r1 r2 r3 r4 r5 w1 w2 w3 w4 w5 c1 c2 n show ?thesis by blast
qed

theorem one_wake_per_arm_witness:
  "wakeWanted pipe_armed_read AND PIPE_WAKE_READ \<noteq> 0 \<and>
   new_events pipe_armed_read (net_pipe_read_handler pipe_armed_read) = [Wake (Some 7) 2] \<and>
   wakeWanted (net_pipe_read_handler pipe_armed_read) = 0 \<and>
   new_events (net_pipe_read_handler pipe_armed_read)
     (net_pipe_read_handler (net_pipe_read_handler pipe_armed_read)) = [] \<and>
   read_wakes pipe_connected [WakeOn 2, ReadReady, ReadReady] = 1 \<and>
   arms PIPE_WAKE_READ [WakeOn 2, ReadReady, ReadReady] = 1"
proof -
  have a: "wakeWanted pipe_armed_read AND PIPE_WAKE_READ \<noteq> 0"
    by (simp add: pipe_armed_read_def pipe_connected_def pipe_connecting_def net_pipe_wake_on_def
          net_pipe_reset_state_def PIPE_WAKE_READ_def)
  have h: "hwpipe pipe_armed_read = Some 7"
    "wakeActual (net_pipe_read_handler pipe_armed_read) = 2"
    "wakeWanted (net_pipe_read_handler pipe_armed_read) = 0"
    by (simp_all add: pipe_armed_read_def pipe_connected_def pipe_connecting_def
          net_pipe_wake_on_def net_pipe_read_handler_def net_pipe_reset_state_def
          PIPE_WAKE_READ_def Let_def)
  have e: "read_wakes pipe_connected [WakeOn 2, ReadReady, ReadReady] = 1"
    "arms PIPE_WAKE_READ [WakeOn 2, ReadReady, ReadReady] = 1"
    by (simp_all add: pipe_connected_def pipe_connecting_def net_step_def new_events_def
          net_pipe_wake_on_def net_pipe_read_handler_def net_pipe_reset_state_def
          PIPE_WAKE_READ_def Let_def)
  from one_wake_per_arm [of pipe_armed_read "[]" ReadReady] a
  have "new_events pipe_armed_read (net_pipe_read_handler pipe_armed_read)
          = [Wake (hwpipe pipe_armed_read) (wakeActual (net_pipe_read_handler pipe_armed_read))]"
    and "new_events (net_pipe_read_handler pipe_armed_read)
           (net_pipe_read_handler (net_pipe_read_handler pipe_armed_read)) = []"
    by blast+
  with a h e show ?thesis by simp
qed

subsection \<open>A connect that fails\<close>

lemma read_handler_log_cases:
  "guest_log (net_pipe_read_handler p) = guest_log p \<or>
   guest_log (net_pipe_read_handler p)
     = guest_log p @ [Wake (hwpipe p) (wakeActual p OR PIPE_WAKE_READ)]"
  using read_handler_armed(1) [of p] read_handler_unarmed(1) [of p] by blast

lemma write_handler_log_cases:
  "guest_log (net_pipe_write_handler p) = guest_log p \<or>
   guest_log (net_pipe_write_handler p)
     = guest_log p @ [Wake (hwpipe p) (wakeActual p OR PIPE_WAKE_WRITE)]"
  using write_handler_armed(1) [of p] write_handler_unarmed(1) [of p] by blast

lemma handlers_keep_hwpipe:
  "hwpipe (net_pipe_read_handler p) = hwpipe p"
  "hwpipe (net_pipe_write_handler p) = hwpipe p"
  "hwpipe (net_pipe_wake_on p flags) = hwpipe p"
  "hwpipe (net_pipe_free p) = hwpipe p"
  by (simp_all add: net_pipe_read_handler_def net_pipe_write_handler_def net_pipe_wake_on_def
        net_pipe_free_def net_pipe_reset_state_def Let_def)

lemma connect_handler_hwpipe_None:
  "hwpipe p = None \<Longrightarrow> hwpipe (net_pipe_connect_handler p fd_arg) = None"
  by (simp add: net_pipe_connect_handler_def net_pipe_close_from_socket_def net_pipe_free_def
        net_pipe_reset_state_def)

lemma failed_connect_state:
  "state p = STATE_CONNECTING \<Longrightarrow> fd_arg < 0 \<Longrightarrow>
   state (net_pipe_connect_handler p fd_arg) = STATE_CLOSING_SOCKET \<and>
   hwpipe (net_pipe_connect_handler p fd_arg) = None"
  by (cases "hwpipe p")
     (simp_all add: net_pipe_connect_handler_def net_pipe_close_from_socket_def
        net_pipe_reset_state_def)

lemma close_notice_None: "close_notice None = []"
  by (simp add: close_notice_def)

lemma step_no_close:
  assumes "hwpipe p = None"
  shows "hwpipe (net_step p e) = None \<and>
         (\<exists>xs. guest_log (net_step p e) = guest_log p @ xs \<and> filter is_close xs = [])"
proof (cases "freed p")
  case True
  with assms show ?thesis by (simp add: net_step_def)
next
  case False
  show ?thesis
  proof (cases e)
    case (ConnectDone fd_arg)
    with False assms show ?thesis
      by (simp add: net_step_def connect_handler_hwpipe_None connect_handler_log
            close_notice_None)
  next
    case ReadReady
    have "\<exists>xs. guest_log (net_pipe_read_handler p) = guest_log p @ xs \<and> filter is_close xs = []"
      using read_handler_log_cases [of p] by auto
    with False assms ReadReady show ?thesis by (simp add: net_step_def handlers_keep_hwpipe)
  next
    case WriteReady
    have "\<exists>xs. guest_log (net_pipe_write_handler p) = guest_log p @ xs \<and> filter is_close xs = []"
      using write_handler_log_cases [of p] by auto
    with False assms WriteReady show ?thesis by (simp add: net_step_def handlers_keep_hwpipe)
  next
    case (WakeOn flags)
    with False assms show ?thesis by (simp add: net_step_def handlers_keep_hwpipe wake_on_log)
  next
    case CloseFromGuest
    with False assms show ?thesis
      by (simp add: net_step_def net_pipe_close_from_guest_def handlers_keep_hwpipe free_log)
  next
    case (Send sock sizes)
    with False assms show ?thesis by (simp add: net_step_def send_keeps_pipe)
  next
    case (Recv sock sizes)
    with False assms show ?thesis by (simp add: net_step_def recv_keeps_pipe)
  qed
qed

lemma run_no_close:
  "hwpipe p = None \<Longrightarrow>
   \<exists>xs. guest_log (net_run p evs) = guest_log p @ xs \<and> filter is_close xs = []"
proof (induction evs arbitrary: p)
  case Nil
  then show ?case by simp
next
  case (Cons e es)
  from step_no_close [OF Cons.prems, of e] obtain xs where
    h: "hwpipe (net_step p e) = None"
    and xs: "guest_log (net_step p e) = guest_log p @ xs" "filter is_close xs = []"
    by blast
  from Cons.IH [OF h] obtain ys where
    ys: "guest_log (net_run (net_step p e) es) = guest_log (net_step p e) @ ys"
      "filter is_close ys = []"
    by blast
  from xs ys have "guest_log (net_run p (e # es)) = guest_log p @ (xs @ ys)"
    "filter is_close (xs @ ys) = []"
    by simp_all
  then show ?case by blast
qed

text \<open>
  Claim C7. When the connect completion reports failure (a negative descriptor) on a
  connection that is Connecting, the connection goes straight to the closing state
  \<open>STATE_CLOSING_SOCKET\<close>, and the call delivers exactly one force-close to the guest-side
  pipe if there is one (none if the guest side is already absent). Whatever happens to the
  connection afterwards, no further force-close is delivered.
\<close>

theorem failed_connect_force_closes_once:
  assumes "state p = STATE_CONNECTING" and "fd_arg < 0"
  shows "state (net_pipe_connect_handler p fd_arg) = STATE_CLOSING_SOCKET \<and>
         new_events p (net_pipe_connect_handler p fd_arg) = close_notice (hwpipe p) \<and>
         (hwpipe p = Some h \<longrightarrow> new_events p (net_pipe_connect_handler p fd_arg) = [Close h]) \<and>
         filter is_close
           (new_events (net_pipe_connect_handler p fd_arg)
              (net_run (net_pipe_connect_handler p fd_arg) evs)) = []"
proof -
  let ?q = "net_pipe_connect_handler p fd_arg"
  from failed_connect_state [OF assms] have st: "state ?q = STATE_CLOSING_SOCKET"
    and hw: "hwpipe ?q = None"
    by simp_all
  have ne: "new_events p ?q = close_notice (hwpipe p)"
    using assms by (simp add: connect_new_events)
  have one: "hwpipe p = Some h \<longrightarrow> new_events p ?q = [Close h]"
    by (simp add: ne close_notice_def)
  from run_no_close [OF hw, of evs] obtain xs where
    "guest_log (net_run ?q evs) = guest_log ?q @ xs" "filter is_close xs = []"
    by blast
  then have later: "filter is_close (new_events ?q (net_run ?q evs)) = []"
    by (simp add: new_events_def)
  from st ne one later show ?thesis by blast
qed

theorem failed_connect_force_closes_once_witness:
  "state pipe_connecting = STATE_CONNECTING \<and> (-1 :: int) < 0 \<and>
   state (net_pipe_connect_handler pipe_connecting (-1)) = STATE_CLOSING_SOCKET \<and>
   new_events pipe_connecting (net_pipe_connect_handler pipe_connecting (-1)) = [Close 7] \<and>
   filter is_close
     (guest_log (net_run pipe_connecting
        [ConnectDone (-1), WakeOn 6, WriteReady, ConnectDone (-1), CloseFromGuest]))
     = [Close 7]"
proof -
  have a: "state pipe_connecting = STATE_CONNECTING" by (simp add: pipe_connecting_def)
  have b: "(-1 :: int) < 0" by simp
  have h: "hwpipe pipe_connecting = Some 7" by (simp add: pipe_connecting_def)
  have e: "filter is_close
     (guest_log (net_run pipe_connecting
        [ConnectDone (-1), WakeOn 6, WriteReady, ConnectDone (-1), CloseFromGuest]))
     = [Close 7]"
    by (simp add: pipe_connecting_def net_step_def net_pipe_connect_handler_def
          net_pipe_close_from_socket_def net_pipe_reset_state_def net_pipe_wake_on_def
          net_pipe_write_handler_def net_pipe_close_from_guest_def net_pipe_free_def
          PIPE_WAKE_READ_def PIPE_WAKE_WRITE_def Let_def)
  from failed_connect_force_closes_once
         [OF a b, of 7 "[WakeOn 6, WriteReady, ConnectDone (-1), CloseFromGuest]"] h a b e
  show ?thesis by (simp add: close_notice_def)
qed

end
